theory Spec2Isabelle
  imports Main "HOL-Library.Sublist"
begin

section \<open>Data model\<close>

text \<open>
  Modelled from the spec: \<^verbatim>\<open>models.py\<close> (the \<^verbatim>\<open>User\<close> and \<^verbatim>\<open>FriendRequest\<close> models) is
  not among the sources. The spec gives a user an id, an email, a name and a password hash,
  and a friend request an id, \<^verbatim>\<open>from_user\<close>, \<^verbatim>\<open>to_user\<close>, a status and a creation time.
  Primary keys are natural numbers; the status is the string the views compare and assign.
\<close>

record user =
  user_id :: nat
  email :: string
  name :: string
  password_hash :: string

record friend_request =
  request_id :: nat
  from_user :: nat
  to_user :: nat
  status :: string
  created_at :: nat

text \<open>
  The persistent store: the two tables, and the rows of the \<^verbatim>\<open>friends\<close> relation as
  ordered pairs of user ids.
\<close>

record db =
  users :: "user list"
  requests :: "friend_request list"
  friends :: "(nat \<times> nat) set"

definition empty_db :: db where
  "empty_db = \<lparr>users = [], requests = [], friends = {}\<rparr>"

text \<open>What a view answers: the HTTP status with the serialized row or the error message.\<close>

datatype response =
    Response_200 friend_request
  | Response_201 friend_request
  | Response_201_user nat string
  | Response_400 string

section \<open>Store operations\<close>

text \<open>
  \<^verbatim>\<open>QuerySet.first()\<close> on a queryset without ordering orders by primary key: it answers the
  matching row of least id, or nothing when no row matches.
\<close>

fun first_by_pk :: "friend_request list \<Rightarrow> friend_request option" where
  "first_by_pk [] = None"
| "first_by_pk (r # rs) =
     (case first_by_pk rs of
        None \<Rightarrow> Some r
      | Some m \<Rightarrow> if request_id r \<le> request_id m then Some r else Some m)"

text \<open>\<^verbatim>\<open>friend_request.save()\<close> of a fetched row: every column of the row with this id is written.\<close>

definition save :: "friend_request \<Rightarrow> friend_request list \<Rightarrow> friend_request list" where
  "save fr rs = map (\<lambda>r. if request_id r = request_id fr then fr else r) rs"

text \<open>
  Modelled from the spec: the declaration of \<^verbatim>\<open>User.friends\<close> is in the missing
  \<^verbatim>\<open>models.py\<close>. The spec calls it a symmetric many-to-many relation, where one
  \<^verbatim>\<open>add\<close> call creates the reverse edge as well.
\<close>

definition friends_add :: "nat \<Rightarrow> nat \<Rightarrow> (nat \<times> nat) set \<Rightarrow> (nat \<times> nat) set" where
  "friends_add a b F = insert (b, a) (insert (a, b) F)"

text \<open>The next value of an auto-increment key: above every id in the table.\<close>

definition next_id :: "nat list \<Rightarrow> nat" where
  "next_id ids = Suc (fold max ids 0)"

section \<open>Case-insensitive lookups\<close>

text \<open>
  \<^verbatim>\<open>iexact\<close> and \<^verbatim>\<open>icontains\<close> compare without regard to the case of the letters
  \<^verbatim>\<open>A\<close> to \<^verbatim>\<open>Z\<close>.
\<close>

definition lower_char :: "char \<Rightarrow> char" where
  "lower_char c =
     (case map_of (zip ''ABCDEFGHIJKLMNOPQRSTUVWXYZ'' ''abcdefghijklmnopqrstuvwxyz'') c of
        None \<Rightarrow> c
      | Some d \<Rightarrow> d)"

definition lower :: "string \<Rightarrow> string" where
  "lower s = map lower_char s"

definition iexact :: "string \<Rightarrow> string \<Rightarrow> bool" where
  "iexact field q \<longleftrightarrow> lower field = lower q"

fun starts_with :: "string \<Rightarrow> string \<Rightarrow> bool" where
  "starts_with s [] = True"
| "starts_with [] (q # qs) = False"
| "starts_with (c # cs) (q # qs) = (c = q \<and> starts_with cs qs)"

fun contains :: "string \<Rightarrow> string \<Rightarrow> bool" where
  "contains [] q = (q = [])"
| "contains (c # cs) q = (starts_with (c # cs) q \<or> contains cs q)"

definition icontains :: "string \<Rightarrow> string \<Rightarrow> bool" where
  "icontains field q \<longleftrightarrow> contains (lower field) (lower q)"

section \<open>Views\<close>

subsection \<open>UserSearchView\<close>

text \<open>
  \<^verbatim>\<open>get_queryset\<close>: the \<^verbatim>\<open>search\<close> parameter defaults to the empty string; the users whose
  email is \<^verbatim>\<open>iexact\<close> the query or whose name \<^verbatim>\<open>icontains\<close> it, without the requesting user.
\<close>

definition search_get_queryset :: "db \<Rightarrow> nat \<Rightarrow> string option \<Rightarrow> user list" where
  "search_get_queryset s acting param =
     (let search_query = (case param of None \<Rightarrow> [] | Some q \<Rightarrow> q)
      in filter (\<lambda>u. user_id u \<noteq> acting)
           (filter (\<lambda>u. iexact (email u) search_query \<or> icontains (name u) search_query)
              (users s)))"

subsection \<open>FriendRequestCreateView\<close>

text \<open>
  The body of a Send request, as the client wrote it. \<^verbatim>\<open>FriendRequestSerializer\<close> declares
  \<^verbatim>\<open>from_user\<close> and \<^verbatim>\<open>status\<close> read-only, so they never reach the validated data;
  \<^verbatim>\<open>to_user\<close> is required and must be the id of a user.
\<close>

record send_data =
  data_from_user :: "nat option"
  data_to_user :: "nat option"
  data_status :: "string option"

text \<open>
  \<^verbatim>\<open>perform_create\<close> saves the validated data with \<^verbatim>\<open>from_user\<close> the requesting user.
  Modelled from the spec: the default of the status column is in the missing \<^verbatim>\<open>models.py\<close>;
  the spec says that a request is created pending. The time stamp is a parameter.
\<close>

definition create_post :: "db \<Rightarrow> nat \<Rightarrow> nat \<Rightarrow> send_data \<Rightarrow> response \<times> db" where
  "create_post s acting now d =
     (case data_to_user d of
        None \<Rightarrow> (Response_400 ''This field is required.'', s)
      | Some t \<Rightarrow>
          if t \<notin> set (map user_id (users s))
          then (Response_400 ''Invalid pk - object does not exist.'', s)
          else
            (let fr = \<lparr>request_id = next_id (map request_id (requests s)),
                       from_user = acting, to_user = t,
                       status = ''pending'', created_at = now\<rparr>
             in (Response_201 fr, s\<lparr>requests := requests s @ [fr]\<rparr>)))"

subsection \<open>FriendRequestAcceptView and FriendRequestRejectView\<close>

text \<open>
  The filter of both views: \<^verbatim>\<open>from_user_id=user_id, to_user=request.user, status='pending'\<close>.
  \<^verbatim>\<open>user_id\<close> is \<^verbatim>\<open>request.data.get('user_id')\<close>, absent when the body has no such key.
\<close>

definition pending_from :: "nat option \<Rightarrow> nat \<Rightarrow> friend_request \<Rightarrow> bool" where
  "pending_from uid acting r \<longleftrightarrow>
     Some (from_user r) = uid \<and> to_user r = acting \<and> status r = ''pending''"

definition accept_post :: "db \<Rightarrow> nat \<Rightarrow> nat option \<Rightarrow> response \<times> db" where
  "accept_post s acting uid =
     (case first_by_pk (filter (pending_from uid acting) (requests s)) of
        Some friend_request \<Rightarrow>
          (let fr = friend_request\<lparr>status := ''accepted''\<rparr>;
               s1 = s\<lparr>requests := save fr (requests s)\<rparr>;
               s2 = s1\<lparr>friends := friends_add acting (from_user fr) (friends s1)\<rparr>
           in (Response_200 fr, s2))
      | None \<Rightarrow> (Response_400 ''Invalid friend request'', s))"

definition reject_post :: "db \<Rightarrow> nat \<Rightarrow> nat option \<Rightarrow> response \<times> db" where
  "reject_post s acting uid =
     (case first_by_pk (filter (pending_from uid acting) (requests s)) of
        Some friend_request \<Rightarrow>
          (let fr = friend_request\<lparr>status := ''rejected''\<rparr>;
               s1 = s\<lparr>requests := save fr (requests s)\<rparr>
           in (Response_200 fr, s1))
      | None \<Rightarrow> (Response_400 ''Invalid friend request'', s))"

subsection \<open>FriendListView and PendingFriendRequestListView\<close>

definition friend_list :: "db \<Rightarrow> nat \<Rightarrow> user list" where
  "friend_list s acting = filter (\<lambda>u. (user_id u, acting) \<in> friends s) (users s)"

definition pending_list :: "db \<Rightarrow> nat \<Rightarrow> friend_request list" where
  "pending_list s acting =
     filter (\<lambda>r. to_user r = acting \<and> status r = ''pending'') (requests s)"

subsection \<open>RegisterView\<close>

text \<open>
  Modelled from the spec: \<^verbatim>\<open>User.objects.create_user\<close> is in the missing \<^verbatim>\<open>models.py\<close>.
  The spec: creation fails with a validation error if the email is already registered
  (emails are unique without regard to case) or a required field is missing; the password is
  stored hashed. The serializer makes the name optional. The hash is a parameter.
\<close>

record register_data =
  data_email :: "string option"
  data_name :: "string option"
  data_password :: "string option"

definition register_post :: "(string \<Rightarrow> string) \<Rightarrow> db \<Rightarrow> register_data \<Rightarrow> response \<times> db" where
  "register_post hash s d =
     (case (data_email d, data_password d) of
        (Some e, Some p) \<Rightarrow>
          if list_ex (\<lambda>u. iexact (email u) e) (users s)
          then (Response_400 ''user with this email already exists.'', s)
          else
            (let u = \<lparr>user_id = next_id (map user_id (users s)), email = e,
                      name = (case data_name d of None \<Rightarrow> [] | Some n \<Rightarrow> n),
                      password_hash = hash p\<rparr>
             in (Response_201_user (user_id u) (email u), s\<lparr>users := users s @ [u]\<rparr>))
      | _ \<Rightarrow> (Response_400 ''This field is required.'', s))"

section \<open>Reachable states\<close>

text \<open>
  The states the service can be in: it starts empty, and every request is one of Register,
  Send, Accept and Reject; the last three come from an authenticated, hence registered, user.
\<close>

inductive reachable :: "db \<Rightarrow> bool" where
  init: "reachable empty_db"
| register: "reachable s \<Longrightarrow> reachable (snd (register_post hash s d))"
| send: "reachable s \<Longrightarrow> acting \<in> set (map user_id (users s)) \<Longrightarrow>
         reachable (snd (create_post s acting now d))"
| accept: "reachable s \<Longrightarrow> acting \<in> set (map user_id (users s)) \<Longrightarrow>
           reachable (snd (accept_post s acting uid))"
| reject: "reachable s \<Longrightarrow> acting \<in> set (map user_id (users s)) \<Longrightarrow>
           reachable (snd (reject_post s acting uid))"

text \<open>
  The same, when no Send names the sender as its own target.
\<close>

inductive reachable_no_self :: "db \<Rightarrow> bool" where
  init_ns: "reachable_no_self empty_db"
| register_ns: "reachable_no_self s \<Longrightarrow> reachable_no_self (snd (register_post hash s d))"
| send_ns: "reachable_no_self s \<Longrightarrow> acting \<in> set (map user_id (users s)) \<Longrightarrow>
            data_to_user d \<noteq> Some acting \<Longrightarrow>
            reachable_no_self (snd (create_post s acting now d))"
| accept_ns: "reachable_no_self s \<Longrightarrow> acting \<in> set (map user_id (users s)) \<Longrightarrow>
              reachable_no_self (snd (accept_post s acting uid))"
| reject_ns: "reachable_no_self s \<Longrightarrow> acting \<in> set (map user_id (users s)) \<Longrightarrow>
              reachable_no_self (snd (reject_post s acting uid))"

text \<open>Primary keys are unique.\<close>

definition unique_ids :: "db \<Rightarrow> bool" where
  "unique_ids s \<longleftrightarrow> distinct (map request_id (requests s))"

section \<open>Example states\<close>

text \<open>
  Three users; user 2 has accepted the request of user 1, and a request of user 1 to user 3
  is pending.
\<close>

definition terminal_db :: db where
  "terminal_db =
     \<lparr>users = [\<lparr>user_id = 1, email = ''a@x.com'', name = ''Alice'', password_hash = ''h1''\<rparr>,
               \<lparr>user_id = 2, email = ''b@x.com'', name = ''Bob'', password_hash = ''h2''\<rparr>,
               \<lparr>user_id = 3, email = ''c@x.com'', name = ''Carol'', password_hash = ''h3''\<rparr>],
      requests = [\<lparr>request_id = 1, from_user = 1, to_user = 2, status = ''accepted'', created_at = 10\<rparr>,
                  \<lparr>request_id = 2, from_user = 1, to_user = 3, status = ''pending'', created_at = 11\<rparr>],
      friends = {(2, 1), (1, 2)}\<rparr>"

text \<open>Two users; user 1 has sent user 2 two requests, and both are pending.\<close>

definition duplicate_db :: db where
  "duplicate_db =
     \<lparr>users = [\<lparr>user_id = 1, email = ''a@x.com'', name = ''Alice'', password_hash = ''h1''\<rparr>,
               \<lparr>user_id = 2, email = ''b@x.com'', name = ''Bob'', password_hash = ''h2''\<rparr>],
      requests = [\<lparr>request_id = 1, from_user = 1, to_user = 2, status = ''pending'', created_at = 10\<rparr>,
                  \<lparr>request_id = 2, from_user = 1, to_user = 2, status = ''pending'', created_at = 11\<rparr>],
      friends = {}\<rparr>"

text \<open>The two registered users 1 and 2, with no request and no friendship yet.\<close>

definition two_users_db :: db where
  "two_users_db =
     \<lparr>users = [\<lparr>user_id = 1, email = ''a@x.com'', name = ''Alice'', password_hash = ''h1''\<rparr>,
               \<lparr>user_id = 2, email = ''b@x.com'', name = ''Bob'', password_hash = ''h2''\<rparr>],
      requests = [], friends = {}\<rparr>"

text \<open>The body of a Send request that names user 2 only.\<close>

definition send_to_2 :: send_data where
  "send_to_2 = \<lparr>data_from_user = None, data_to_user = Some 2, data_status = None\<rparr>"

text \<open>
  The body of a Send request that names user 2, and also claims to come from user 2 and to be
  accepted already.
\<close>

definition forged_send :: send_data where
  "forged_send = \<lparr>data_from_user = Some 2, data_to_user = Some 2, data_status = Some ''accepted''\<rparr>"

text \<open>The bodies of the Register requests of Alice and Bob.\<close>

definition alice_data :: register_data where
  "alice_data = \<lparr>data_email = Some ''a@x.com'', data_name = Some ''Alice'', data_password = Some ''h1''\<rparr>"

definition bob_data :: register_data where
  "bob_data = \<lparr>data_email = Some ''b@x.com'', data_name = Some ''Bob'', data_password = Some ''h2''\<rparr>"

text \<open>The state after Alice alone has registered.\<close>

definition one_user_db :: db where
  "one_user_db =
     \<lparr>users = [\<lparr>user_id = 1, email = ''a@x.com'', name = ''Alice'', password_hash = ''h1''\<rparr>],
      requests = [], friends = {}\<rparr>"

text \<open>The body of a Send request that names user 1 only.\<close>

definition send_to_1 :: send_data where
  "send_to_1 = \<lparr>data_from_user = None, data_to_user = Some 1, data_status = None\<rparr>"

text \<open>Alice sends a friend request to herself, and then accepts it.\<close>

definition self_request_db :: db where
  "self_request_db = snd (create_post one_user_db 1 20 send_to_1)"

definition self_friend_db :: db where
  "self_friend_db = snd (accept_post self_request_db 1 (Some 1))"

text \<open>No request names its sender as target, and nobody is their own friend.\<close>

definition no_self :: "db \<Rightarrow> bool" where
  "no_self s \<longleftrightarrow> (\<forall>r \<in> set (requests s). from_user r \<noteq> to_user r) \<and> (\<forall>u. (u, u) \<notin> friends s)"

section \<open>Sequences of Accept and Reject calls\<close>

text \<open>A call of one of the two views, by the acting user, with the \<^verbatim>\<open>user_id\<close> of the body.\<close>

datatype call = Accept nat "nat option" | Reject nat "nat option"

fun call_post :: "db \<Rightarrow> call \<Rightarrow> response \<times> db" where
  "call_post s (Accept acting uid) = accept_post s acting uid"
| "call_post s (Reject acting uid) = reject_post s acting uid"

fun run :: "db \<Rightarrow> call list \<Rightarrow> db" where
  "run s [] = s"
| "run s (c # cs) = run (snd (call_post s c)) cs"

text \<open>Alice and Bob are friends: Alice has sent Bob a request and Bob has accepted it.\<close>

definition befriended_db :: db where
  "befriended_db = snd (accept_post (snd (create_post two_users_db 1 20 send_to_2)) 2 (Some 1))"

section \<open>Helper lemmas\<close>

lemma first_by_pk_None: "first_by_pk rs = None \<longleftrightarrow> rs = []"
  by (induction rs) (auto split: option.splits)

lemma first_by_pk_mem: "first_by_pk rs = Some m \<Longrightarrow> m \<in> set rs"
  by (induction rs arbitrary: m) (auto split: option.splits if_splits)

lemma first_by_pk_least: "first_by_pk rs = Some m \<Longrightarrow> r \<in> set rs \<Longrightarrow> request_id m \<le> request_id r"
proof (induction rs arbitrary: m)
  case Nil
  then show ?case by simp
next
  case (Cons a rs)
  show ?case
  proof (cases "first_by_pk rs")
    case None
    then have "rs = []" by (simp add: first_by_pk_None)
    with Cons.prems None show ?thesis by simp
  next
    case (Some m')
    from Cons.prems(2) have "r = a \<or> r \<in> set rs" by simp
    then show ?thesis
    proof
      assume "r = a"
      with Cons.prems(1) Some show ?thesis by (simp split: if_splits)
    next
      assume "r \<in> set rs"
      then have "request_id m' \<le> request_id r" using Cons.IH [OF Some] by simp
      with Cons.prems(1) Some show ?thesis by (auto split: if_splits)
    qed
  qed
qed

lemma lookup_None:
  "first_by_pk (filter (pending_from uid acting) (requests s)) = None \<longleftrightarrow>
   (\<forall>r \<in> set (requests s). \<not> pending_from uid acting r)"
  by (simp add: first_by_pk_None filter_empty_conv)

lemma lookup_Some:
  assumes "first_by_pk (filter (pending_from uid acting) (requests s)) = Some m"
  shows "m \<in> set (requests s)" and "pending_from uid acting m"
  using first_by_pk_mem [OF assms] by auto

lemma starts_with_prefix: "starts_with s q \<longleftrightarrow> prefix q s"
  by (induction s q rule: starts_with.induct) auto

lemma contains_sublist: "contains s q \<longleftrightarrow> sublist q s"
proof (induction s)
  case Nil
  then show ?case by simp
next
  case (Cons c cs)
  then show ?case by (simp add: starts_with_prefix sublist_Cons_right)
qed

lemma contains_empty: "contains s []"
  by (simp add: contains_sublist)

lemma length_save: "length (save fr rs) = length rs"
  by (simp add: save_def)

lemma ids_save: "map request_id (save fr rs) = map request_id rs"
  by (induction rs) (auto simp: save_def)

lemma save_list_update:
  assumes "distinct (map request_id rs)" and "i < length rs" and "request_id fr = request_id (rs ! i)"
  shows "save fr rs = rs[i := fr]"
proof (rule nth_equalityI)
  show "length (save fr rs) = length (rs[i := fr])" by (simp add: save_def)
next
  fix j assume "j < length (save fr rs)"
  then have j: "j < length rs" by (simp add: save_def)
  show "save fr rs ! j = rs[i := fr] ! j"
  proof (cases "j = i")
    case True
    with assms j show ?thesis by (simp add: save_def)
  next
    case False
    have "request_id (rs ! j) \<noteq> request_id (rs ! i)"
      using assms(1,2) j False by (metis distinct_conv_nth length_map nth_map) 
    with assms j False show ?thesis by (simp add: save_def)
  qed
qed

lemma fold_max_ge: "a \<le> fold max ids (a::nat)"
  by (induction ids arbitrary: a) (auto intro: order_trans [OF max.cobounded2])

lemma fold_max_mem: "x \<in> set ids \<Longrightarrow> x \<le> fold max ids (a::nat)"
proof (induction ids arbitrary: a)
  case Nil
  then show ?case by simp
next
  case (Cons y ys)
  show ?case
  proof (cases "x = y")
    case True
    have "max y a \<le> fold max ys (max y a)" by (rule fold_max_ge)
    with True show ?thesis by simp
  next
    case False
    with Cons show ?thesis by simp
  qed
qed

lemma next_id_fresh: "x \<in> set ids \<Longrightarrow> x < next_id ids"
  by (simp add: next_id_def fold_max_mem less_Suc_eq_le)

lemma next_id_notin: "next_id ids \<notin> set ids"
  using next_id_fresh by blast

lemma requests_register: "requests (snd (register_post h s d)) = requests s"
  by (simp add: register_post_def Let_def split: option.splits prod.splits)

lemma friends_register: "friends (snd (register_post h s d)) = friends s"
  by (simp add: register_post_def Let_def split: option.splits prod.splits)

lemma friends_create: "friends (snd (create_post s acting now d)) = friends s"
  by (simp add: create_post_def Let_def split: option.splits)

lemma friends_reject: "friends (snd (reject_post s acting uid)) = friends s"
  by (simp add: reject_post_def Let_def split: option.splits)

lemma users_reject: "users (snd (reject_post s acting uid)) = users s"
  by (simp add: reject_post_def Let_def split: option.splits)

lemma users_accept: "users (snd (accept_post s acting uid)) = users s"
  by (simp add: accept_post_def Let_def split: option.splits)

lemma ids_accept: "map request_id (requests (snd (accept_post s acting uid))) = map request_id (requests s)"
  by (simp add: accept_post_def Let_def ids_save split: option.splits)

lemma ids_reject: "map request_id (requests (snd (reject_post s acting uid))) = map request_id (requests s)"
  by (simp add: reject_post_def Let_def ids_save split: option.splits)

lemma unique_ids_create: "unique_ids s \<Longrightarrow> unique_ids (snd (create_post s acting now d))"
proof -
  assume u: "unique_ids s"
  have "next_id (map request_id (requests s)) \<notin> set (map request_id (requests s))"
    by (rule next_id_notin)
  then have "next_id (map request_id (requests s)) \<notin> request_id ` set (requests s)"
    by simp
  with u show ?thesis
    by (simp add: unique_ids_def create_post_def Let_def split: option.splits)
qed

text \<open>Send draws a fresh id and no view changes an id: ids are unique in every reachable state.\<close>

lemma reachable_unique_ids: "reachable s \<Longrightarrow> unique_ids s"
proof (induction rule: reachable.induct)
  case init
  show ?case by (simp add: unique_ids_def empty_db_def)
next
  case (register s hash d)
  then show ?case by (simp add: unique_ids_def requests_register)
next
  case (send s acting now d)
  then show ?case by (simp add: unique_ids_create)
next
  case (accept s acting uid)
  then show ?case by (simp add: unique_ids_def ids_accept)
next
  case (reject s acting uid)
  then show ?case by (simp add: unique_ids_def ids_reject)
qed

section \<open>Accept and Reject without a matching pending request\<close>

text \<open>
  C3: when no friend request from \<open>other_user_id\<close> to the acting user is pending (none
  exists, or it is accepted or rejected already, or it is addressed to another user), Accept
  and Reject both answer the error and leave the whole state as it was.
\<close>

theorem no_pending_request_is_error:
  assumes "\<forall>r \<in> set (requests s).
             \<not> (from_user r = other_user_id \<and> to_user r = acting \<and> status r = ''pending'')"
  shows "accept_post s acting (Some other_user_id) = (Response_400 ''Invalid friend request'', s)
       \<and> reject_post s acting (Some other_user_id) = (Response_400 ''Invalid friend request'', s)"
proof -
  have "\<forall>r \<in> set (requests s). \<not> pending_from (Some other_user_id) acting r"
    using assms by (simp add: pending_from_def)
  then have none: "first_by_pk (filter (pending_from (Some other_user_id) acting) (requests s)) = None"
    by (simp add: lookup_None)
  show ?thesis
    by (simp add: accept_post_def reject_post_def none)
qed

text \<open>
  An instance: user 2 has accepted the request of user 1 already, and the pending request of
  user 1 is addressed to user 3; neither Accept nor Reject by user 2 changes anything.
\<close>

theorem no_pending_request_is_error_witness:
  "\<not> (\<exists>r \<in> set (requests terminal_db).
        from_user r = 1 \<and> to_user r = 2 \<and> status r = ''pending'')
   \<and> accept_post terminal_db 2 (Some 1) = (Response_400 ''Invalid friend request'', terminal_db)
   \<and> reject_post terminal_db 2 (Some 1) = (Response_400 ''Invalid friend request'', terminal_db)"
proof -
  have h: "\<forall>r \<in> set (requests terminal_db).
      \<not> (from_user r = 1 \<and> to_user r = 2 \<and> status r = ''pending'')"
    by (simp add: terminal_db_def)
  then have "\<not> (\<exists>r \<in> set (requests terminal_db).
        from_user r = 1 \<and> to_user r = 2 \<and> status r = ''pending'')"
    by blast
  with no_pending_request_is_error [OF h] show ?thesis by blast
qed

lemma save_mem: "m \<in> set rs \<Longrightarrow> request_id fr = request_id m \<Longrightarrow> fr \<in> set (save fr rs)"
  by (force simp: save_def)

lemma save_same_id: "r \<in> set (save fr rs) \<Longrightarrow> request_id r = request_id fr \<Longrightarrow> r = fr"
  by (auto simp: save_def split: if_splits)

lemma lookup_exists:
  assumes "\<exists>r \<in> set (requests s). from_user r = other \<and> to_user r = acting \<and> status r = ''pending''"
  shows "\<exists>m. first_by_pk (filter (pending_from (Some other) acting) (requests s)) = Some m
           \<and> m \<in> set (requests s) \<and> from_user m = other \<and> to_user m = acting
           \<and> status m = ''pending''"
proof -
  from assms have "\<not> (\<forall>r \<in> set (requests s). \<not> pending_from (Some other) acting r)"
    by (auto simp: pending_from_def)
  then have "first_by_pk (filter (pending_from (Some other) acting) (requests s)) \<noteq> None"
    by (simp only: lookup_None not_False_eq_True)
  then obtain m where m: "first_by_pk (filter (pending_from (Some other) acting) (requests s)) = Some m"
    by blast
  from lookup_Some [OF m] have "m \<in> set (requests s)" "pending_from (Some other) acting m" .
  with m show ?thesis by (auto simp: pending_from_def)
qed

section \<open>Accept\<close>

text \<open>
  C1: when a friend request from \<open>other_user_id\<close> to the acting user is pending, Accept
  answers that request with status accepted, stores it so, and afterwards each of the two
  users is in the friends relation, and in the friend list, of the other.
\<close>

theorem accept_pending_makes_friends:
  assumes "\<exists>r \<in> set (requests s).
             from_user r = other_user_id \<and> to_user r = acting \<and> status r = ''pending''"
  shows "\<exists>m s'. m \<in> set (requests s) \<and> from_user m = other_user_id \<and> to_user m = acting
           \<and> status m = ''pending''
           \<and> accept_post s acting (Some other_user_id) = (Response_200 (m\<lparr>status := ''accepted''\<rparr>), s')
           \<and> m\<lparr>status := ''accepted''\<rparr> \<in> set (requests s')
           \<and> (\<forall>r \<in> set (requests s'). request_id r = request_id m \<longrightarrow> r = m\<lparr>status := ''accepted''\<rparr>)
           \<and> (acting, other_user_id) \<in> friends s' \<and> (other_user_id, acting) \<in> friends s'
           \<and> (\<forall>u \<in> set (users s'). user_id u = other_user_id \<longrightarrow> u \<in> set (friend_list s' acting))
           \<and> (\<forall>u \<in> set (users s'). user_id u = acting \<longrightarrow> u \<in> set (friend_list s' other_user_id))"
proof -
  from lookup_exists [OF assms] obtain m where
    m: "first_by_pk (filter (pending_from (Some other_user_id) acting) (requests s)) = Some m"
    and mem: "m \<in> set (requests s)" and f: "from_user m = other_user_id"
    and t: "to_user m = acting" and p: "status m = ''pending''"
    by blast
  define fr where "fr = m\<lparr>status := ''accepted''\<rparr>"
  define s' where "s' = s\<lparr>requests := save fr (requests s),
                          friends := friends_add acting other_user_id (friends s)\<rparr>"
  have res: "accept_post s acting (Some other_user_id) = (Response_200 fr, s')"
    by (simp add: accept_post_def m Let_def fr_def s'_def f)
  have id: "request_id fr = request_id m" by (simp add: fr_def)
  have in': "fr \<in> set (requests s')"
    using save_mem [OF mem id] by (simp add: s'_def)
  have only: "\<forall>r \<in> set (requests s'). request_id r = request_id m \<longrightarrow> r = fr"
    using save_same_id [of _ fr "requests s"] id by (simp add: s'_def)
  have e1: "(acting, other_user_id) \<in> friends s'" and e2: "(other_user_id, acting) \<in> friends s'"
    by (simp_all add: s'_def friends_add_def)
  have l1: "\<forall>u \<in> set (users s'). user_id u = other_user_id \<longrightarrow> u \<in> set (friend_list s' acting)"
    using e2 by (simp add: friend_list_def)
  have l2: "\<forall>u \<in> set (users s'). user_id u = acting \<longrightarrow> u \<in> set (friend_list s' other_user_id)"
    using e1 by (simp add: friend_list_def)
  show ?thesis
    using mem f t p res in' only e1 e2 l1 l2 unfolding fr_def by blast
qed

text \<open>An instance: user 3 accepts the pending request of user 1.\<close>

theorem accept_pending_makes_friends_witness:
  "(\<exists>r \<in> set (requests terminal_db). from_user r = 1 \<and> to_user r = 3 \<and> status r = ''pending'')
   \<and> (3, 1) \<in> friends (snd (accept_post terminal_db 3 (Some 1)))
   \<and> (1, 3) \<in> friends (snd (accept_post terminal_db 3 (Some 1)))
   \<and> (\<exists>m. fst (accept_post terminal_db 3 (Some 1)) = Response_200 (m\<lparr>status := ''accepted''\<rparr>))"
proof -
  have h: "\<exists>r \<in> set (requests terminal_db). from_user r = 1 \<and> to_user r = 3 \<and> status r = ''pending''"
    by (simp add: terminal_db_def)
  from accept_pending_makes_friends [OF h] h show ?thesis by fastforce
qed

lemma first_by_pk_index:
  assumes "first_by_pk (filter P rs) = Some m"
  shows "\<exists>i < length rs. rs ! i = m \<and> P m
           \<and> (\<forall>j < length rs. P (rs ! j) \<longrightarrow> request_id m \<le> request_id (rs ! j))"
proof -
  from first_by_pk_mem [OF assms] have mem: "m \<in> set rs" and P: "P m" by auto
  from mem obtain i where i: "i < length rs" "rs ! i = m" by (auto simp: in_set_conv_nth)
  have "\<forall>j < length rs. P (rs ! j) \<longrightarrow> request_id m \<le> request_id (rs ! j)"
  proof (intro allI impI)
    fix j assume "j < length rs" "P (rs ! j)"
    then have "rs ! j \<in> set (filter P rs)" by simp
    then show "request_id m \<le> request_id (rs ! j)" by (rule first_by_pk_least [OF assms])
  qed
  with i P show ?thesis by blast
qed

section \<open>Several pending requests of one sender\<close>

text \<open>
  C8: when one or several requests from the same sender to the acting user are pending,
  Accept and Reject each change one row only: the pending request of that sender with the
  least id, which is the first in the store's order. Every other row, so every other
  pending request of that sender, keeps its status.
\<close>

theorem one_of_several_pending:
  assumes "unique_ids s"
    and "\<exists>r \<in> set (requests s).
           from_user r = other_user_id \<and> to_user r = acting \<and> status r = ''pending''"
  shows "\<exists>i < length (requests s).
           from_user (requests s ! i) = other_user_id \<and> to_user (requests s ! i) = acting
           \<and> status (requests s ! i) = ''pending''
           \<and> (\<forall>j < length (requests s).
                 from_user (requests s ! j) = other_user_id \<and> to_user (requests s ! j) = acting
                 \<and> status (requests s ! j) = ''pending''
                 \<longrightarrow> request_id (requests s ! i) \<le> request_id (requests s ! j))
           \<and> requests (snd (accept_post s acting (Some other_user_id)))
               = (requests s)[i := (requests s ! i)\<lparr>status := ''accepted''\<rparr>]
           \<and> requests (snd (reject_post s acting (Some other_user_id)))
               = (requests s)[i := (requests s ! i)\<lparr>status := ''rejected''\<rparr>]"
proof -
  let ?P = "pending_from (Some other_user_id) acting"
  from lookup_exists [OF assms(2)] obtain m where
    m: "first_by_pk (filter ?P (requests s)) = Some m" by blast
  from first_by_pk_index [OF m] obtain i where
    i: "i < length (requests s)" and mi: "requests s ! i = m" and P: "?P m"
    and least: "\<forall>j < length (requests s). ?P (requests s ! j)
                  \<longrightarrow> request_id m \<le> request_id (requests s ! j)"
    by blast
  have d: "distinct (map request_id (requests s))" using assms(1) by (simp add: unique_ids_def)
  have a: "save (m\<lparr>status := ''accepted''\<rparr>) (requests s) = (requests s)[i := m\<lparr>status := ''accepted''\<rparr>]"
    by (rule save_list_update [OF d i]) (simp add: mi)
  have r: "save (m\<lparr>status := ''rejected''\<rparr>) (requests s) = (requests s)[i := m\<lparr>status := ''rejected''\<rparr>]"
    by (rule save_list_update [OF d i]) (simp add: mi)
  have ra: "requests (snd (accept_post s acting (Some other_user_id)))
              = (requests s)[i := (requests s ! i)\<lparr>status := ''accepted''\<rparr>]"
    by (simp add: accept_post_def m Let_def a mi)
  have rr: "requests (snd (reject_post s acting (Some other_user_id)))
              = (requests s)[i := (requests s ! i)\<lparr>status := ''rejected''\<rparr>]"
    by (simp add: reject_post_def m Let_def r mi)
  from P mi have Pi: "from_user (requests s ! i) = other_user_id \<and> to_user (requests s ! i) = acting
           \<and> status (requests s ! i) = ''pending''"
    by (simp add: pending_from_def)
  from least mi have l: "\<forall>j < length (requests s).
                 from_user (requests s ! j) = other_user_id \<and> to_user (requests s ! j) = acting
                 \<and> status (requests s ! j) = ''pending''
                 \<longrightarrow> request_id (requests s ! i) \<le> request_id (requests s ! j)"
    by (simp add: pending_from_def)
  from i Pi l ra rr show ?thesis by blast
qed

text \<open>
  An instance: two requests of user 1 to user 2 are pending, with ids 1 and 2; Accept takes
  the one with id 1 and leaves the other pending, and so does Reject.
\<close>

theorem one_of_several_pending_witness:
  "unique_ids duplicate_db
   \<and> (\<exists>r \<in> set (requests duplicate_db). from_user r = 1 \<and> to_user r = 2 \<and> status r = ''pending'')
   \<and> requests (snd (accept_post duplicate_db 2 (Some 1)))
       = [\<lparr>request_id = 1, from_user = 1, to_user = 2, status = ''accepted'', created_at = 10\<rparr>,
          \<lparr>request_id = 2, from_user = 1, to_user = 2, status = ''pending'', created_at = 11\<rparr>]
   \<and> requests (snd (reject_post duplicate_db 2 (Some 1)))
       = [\<lparr>request_id = 1, from_user = 1, to_user = 2, status = ''rejected'', created_at = 10\<rparr>,
          \<lparr>request_id = 2, from_user = 1, to_user = 2, status = ''pending'', created_at = 11\<rparr>]"
proof -
  have u: "unique_ids duplicate_db" by (simp add: unique_ids_def duplicate_db_def)
  have h: "\<exists>r \<in> set (requests duplicate_db). from_user r = 1 \<and> to_user r = 2 \<and> status r = ''pending''"
    by (simp add: duplicate_db_def)
  from one_of_several_pending [OF u h] obtain i where
    i: "i < length (requests duplicate_db)"
    and least: "\<forall>j < length (requests duplicate_db).
                 from_user (requests duplicate_db ! j) = 1 \<and> to_user (requests duplicate_db ! j) = 2
                 \<and> status (requests duplicate_db ! j) = ''pending''
                 \<longrightarrow> request_id (requests duplicate_db ! i) \<le> request_id (requests duplicate_db ! j)"
    and a: "requests (snd (accept_post duplicate_db 2 (Some 1)))
               = (requests duplicate_db)[i := (requests duplicate_db ! i)\<lparr>status := ''accepted''\<rparr>]"
    and r: "requests (snd (reject_post duplicate_db 2 (Some 1)))
               = (requests duplicate_db)[i := (requests duplicate_db ! i)\<lparr>status := ''rejected''\<rparr>]"
    by blast
  from i have "i = 0 \<or> i = 1" by (auto simp: duplicate_db_def)
  moreover have "i \<noteq> 1"
  proof
    assume "i = 1"
    with least [rule_format, of 0] show False by (simp add: duplicate_db_def)
  qed
  ultimately have "i = 0" by simp
  with a r u h show ?thesis by (simp add: duplicate_db_def)
qed

lemma reject_pending:
  assumes "\<exists>r \<in> set (requests s).
             from_user r = other \<and> to_user r = acting \<and> status r = ''pending''"
  shows "\<exists>m. m \<in> set (requests s) \<and> from_user m = other \<and> to_user m = acting
           \<and> status m = ''pending''
           \<and> reject_post s acting (Some other)
               = (Response_200 (m\<lparr>status := ''rejected''\<rparr>),
                  s\<lparr>requests := save (m\<lparr>status := ''rejected''\<rparr>) (requests s)\<rparr>)"
proof -
  from lookup_exists [OF assms] obtain m where
    m: "first_by_pk (filter (pending_from (Some other) acting) (requests s)) = Some m"
    and rest: "m \<in> set (requests s)" "from_user m = other" "to_user m = acting"
      "status m = ''pending''"
    by blast
  have "reject_post s acting (Some other)
          = (Response_200 (m\<lparr>status := ''rejected''\<rparr>),
             s\<lparr>requests := save (m\<lparr>status := ''rejected''\<rparr>) (requests s)\<rparr>)"
    by (simp add: reject_post_def m Let_def)
  with rest show ?thesis by blast
qed

lemma create_valid:
  assumes "data_to_user d = Some t" and "t \<in> set (map user_id (users s))"
  shows "create_post s acting now d =
           (Response_201 \<lparr>request_id = next_id (map request_id (requests s)), from_user = acting,
                           to_user = t, status = ''pending'', created_at = now\<rparr>,
            s\<lparr>requests := requests s @
                 [\<lparr>request_id = next_id (map request_id (requests s)), from_user = acting,
                   to_user = t, status = ''pending'', created_at = now\<rparr>]\<rparr>)"
  using assms by (simp add: create_post_def Let_def)

section \<open>Send\<close>

text \<open>
  C9: whatever \<open>from_user\<close> and \<open>status\<close> the client writes into the body of a Send
  request, they change nothing; every row that Send adds has the acting user as
  \<open>from_user\<close> and status pending; and with a registered target Send does add such a row.
\<close>

theorem send_sets_sender_and_pending:
  "create_post s acting now (d\<lparr>data_from_user := supplied_from, data_status := supplied_status\<rparr>)
     = create_post s acting now d
   \<and> (\<forall>fr s'. create_post s acting now d = (Response_201 fr, s')
         \<longrightarrow> from_user fr = acting \<and> status fr = ''pending'' \<and> requests s' = requests s @ [fr])
   \<and> (\<forall>r \<in> set (requests (snd (create_post s acting now d))).
         r \<in> set (requests s) \<or> (from_user r = acting \<and> status r = ''pending''))
   \<and> (data_to_user d = Some t \<and> t \<in> set (map user_id (users s))
         \<longrightarrow> (\<exists>fr. create_post s acting now d = (Response_201 fr, s\<lparr>requests := requests s @ [fr]\<rparr>)
                \<and> from_user fr = acting \<and> to_user fr = t \<and> status fr = ''pending''))"
proof (intro conjI)
  show "create_post s acting now (d\<lparr>data_from_user := supplied_from, data_status := supplied_status\<rparr>)
     = create_post s acting now d"
    by (simp add: create_post_def)
  show "\<forall>fr s'. create_post s acting now d = (Response_201 fr, s')
         \<longrightarrow> from_user fr = acting \<and> status fr = ''pending'' \<and> requests s' = requests s @ [fr]"
    by (auto simp: create_post_def Let_def split: option.splits if_splits)
  show "\<forall>r \<in> set (requests (snd (create_post s acting now d))).
         r \<in> set (requests s) \<or> (from_user r = acting \<and> status r = ''pending'')"
    by (auto simp: create_post_def Let_def split: option.splits if_splits)
  show "data_to_user d = Some t \<and> t \<in> set (map user_id (users s))
         \<longrightarrow> (\<exists>fr. create_post s acting now d = (Response_201 fr, s\<lparr>requests := requests s @ [fr]\<rparr>)
                \<and> from_user fr = acting \<and> to_user fr = t \<and> status fr = ''pending'')"
  proof
    assume "data_to_user d = Some t \<and> t \<in> set (map user_id (users s))"
    then have "create_post s acting now d =
           (Response_201 \<lparr>request_id = next_id (map request_id (requests s)), from_user = acting,
                           to_user = t, status = ''pending'', created_at = now\<rparr>,
            s\<lparr>requests := requests s @
                 [\<lparr>request_id = next_id (map request_id (requests s)), from_user = acting,
                   to_user = t, status = ''pending'', created_at = now\<rparr>]\<rparr>)"
      by (intro create_valid) simp_all
    then show "\<exists>fr. create_post s acting now d = (Response_201 fr, s\<lparr>requests := requests s @ [fr]\<rparr>)
                \<and> from_user fr = acting \<and> to_user fr = t \<and> status fr = ''pending''"
      by simp
  qed
qed

text \<open>
  An instance: user 1 sends a request to user 2, and the body also claims that the request
  comes from user 2 and is accepted already; the stored row is from user 1 and pending.
\<close>

theorem send_sets_sender_and_pending_witness:
  "(data_to_user forged_send = Some 2 \<and> 2 \<in> set (map user_id (users two_users_db)))
   \<and> create_post two_users_db 1 20 forged_send = create_post two_users_db 1 20 send_to_2
   \<and> requests (snd (create_post two_users_db 1 20 forged_send))
       = [\<lparr>request_id = 1, from_user = 1, to_user = 2, status = ''pending'', created_at = 20\<rparr>]"
proof -
  have p: "data_to_user send_to_2 = Some 2 \<and> 2 \<in> set (map user_id (users two_users_db))"
    by (simp add: send_to_2_def two_users_db_def)
  have f: "forged_send = send_to_2\<lparr>data_from_user := Some 2, data_status := Some ''accepted''\<rparr>"
    by (simp add: forged_send_def send_to_2_def)
  note t = send_sets_sender_and_pending [where s = two_users_db and acting = 1 and now = 20
    and d = send_to_2 and supplied_from = "Some 2" and supplied_status = "Some ''accepted''" and t = 2]
  from t f have e: "create_post two_users_db 1 20 forged_send = create_post two_users_db 1 20 send_to_2"
    by simp
  from t p obtain fr where
    c: "create_post two_users_db 1 20 send_to_2
          = (Response_201 fr, two_users_db\<lparr>requests := requests two_users_db @ [fr]\<rparr>)"
    and fr: "from_user fr = 1" "to_user fr = 2" "status fr = ''pending''"
    by blast
  have "fst (create_post two_users_db 1 20 send_to_2)
          = Response_201 \<lparr>request_id = 1, from_user = 1, to_user = 2, status = ''pending'', created_at = 20\<rparr>"
    by (simp add: create_post_def send_to_2_def two_users_db_def next_id_def Let_def)
  with c have "fr = \<lparr>request_id = 1, from_user = 1, to_user = 2, status = ''pending'', created_at = 20\<rparr>"
    by simp
  with c e have "requests (snd (create_post two_users_db 1 20 forged_send))
       = [\<lparr>request_id = 1, from_user = 1, to_user = 2, status = ''pending'', created_at = 20\<rparr>]"
    by (simp add: two_users_db_def)
  moreover have "data_to_user forged_send = Some 2" by (simp add: forged_send_def)
  ultimately show ?thesis using p e by simp
qed

section \<open>Search\<close>

lemma lower_Nil: "lower [] = []"
  by (simp add: lower_def)

lemma icontains_empty: "icontains n []"
  by (simp add: icontains_def lower_Nil contains_empty)

text \<open>
  C10: for the empty query, and when the parameter is absent, Search answers every
  registered user but the requesting one, since every name contains the empty string; the
  answer is not empty as soon as another user is registered.
\<close>

theorem empty_query_returns_everyone_else:
  "search_get_queryset s acting (Some []) = filter (\<lambda>u. user_id u \<noteq> acting) (users s)
   \<and> search_get_queryset s acting None = filter (\<lambda>u. user_id u \<noteq> acting) (users s)
   \<and> ((\<exists>u \<in> set (users s). user_id u \<noteq> acting) \<longrightarrow> search_get_queryset s acting (Some []) \<noteq> [])"
proof -
  have a: "search_get_queryset s acting (Some []) = filter (\<lambda>u. user_id u \<noteq> acting) (users s)"
    by (simp add: search_get_queryset_def icontains_empty)
  have b: "search_get_queryset s acting None = filter (\<lambda>u. user_id u \<noteq> acting) (users s)"
    by (simp add: search_get_queryset_def icontains_empty)
  have "(\<exists>u \<in> set (users s). user_id u \<noteq> acting) \<longrightarrow> filter (\<lambda>u. user_id u \<noteq> acting) (users s) \<noteq> []"
    by (auto simp: filter_empty_conv)
  with a b show ?thesis by simp
qed

text \<open>An instance: among the users 1 and 2, the empty query of user 1 answers user 2.\<close>

theorem empty_query_returns_everyone_else_witness:
  "(\<exists>u \<in> set (users two_users_db). user_id u \<noteq> 1)
   \<and> search_get_queryset two_users_db 1 (Some [])
       = [\<lparr>user_id = 2, email = ''b@x.com'', name = ''Bob'', password_hash = ''h2''\<rparr>]
   \<and> search_get_queryset two_users_db 1 (Some []) \<noteq> []"
proof -
  have h: "\<exists>u \<in> set (users two_users_db). user_id u \<noteq> 1"
    by (simp add: two_users_db_def)
  from empty_query_returns_everyone_else [of two_users_db 1] h show ?thesis
    by (simp add: two_users_db_def)
qed

text \<open>
  C7, as stated: Search answers exactly the users whose email equals the query without regard
  to case or whose name contains the query as it is written. It does not: user 2 searches for
  \<open>ALICE\<close> and gets Alice, whose email is not the query and whose name, \<open>Alice\<close>, does
  not contain the string \<open>ALICE\<close>.
\<close>

theorem search_name_is_case_insensitive_counterexample:
  "search_get_queryset terminal_db 2 (Some ''ALICE'')
     = [\<lparr>user_id = 1, email = ''a@x.com'', name = ''Alice'', password_hash = ''h1''\<rparr>]
   \<and> \<not> iexact ''a@x.com'' ''ALICE''
   \<and> \<not> sublist ''ALICE'' ''Alice''"
  by code_simp

text \<open>
  C7, amended: Search answers, in the order of the store, exactly the users other than the
  requesting one whose email equals the query, or whose name contains the query, both
  without regard to case; the requesting user is never among them.
\<close>

theorem search_matches_without_case:
  "search_get_queryset s acting (Some q)
     = filter (\<lambda>u. user_id u \<noteq> acting
                 \<and> (lower (email u) = lower q \<or> sublist (lower q) (lower (name u))))
         (users s)
   \<and> (\<forall>u \<in> set (search_get_queryset s acting (Some q)). user_id u \<noteq> acting)"
proof -
  have "search_get_queryset s acting (Some q)
     = filter (\<lambda>u. user_id u \<noteq> acting
                 \<and> (lower (email u) = lower q \<or> sublist (lower q) (lower (name u))))
         (users s)"
    unfolding search_get_queryset_def iexact_def icontains_def contains_sublist Let_def
    by (auto intro: filter_cong)
  then show ?thesis by simp
qed

text \<open>
  An instance: user 2 searching for \<open>ALICE\<close> gets Alice by her name, and Alice
  searching for \<open>alice\<close> gets nobody, although the query matches her own name.
\<close>

theorem search_matches_without_case_witness:
  "search_get_queryset terminal_db 2 (Some ''ALICE'')
     = [\<lparr>user_id = 1, email = ''a@x.com'', name = ''Alice'', password_hash = ''h1''\<rparr>]
   \<and> search_get_queryset terminal_db 1 (Some ''alice'') = []"
proof -
  have e: "filter (\<lambda>u. user_id u \<noteq> 2
                 \<and> (lower (email u) = lower ''ALICE'' \<or> sublist (lower ''ALICE'') (lower (name u))))
         (users terminal_db)
     = [\<lparr>user_id = 1, email = ''a@x.com'', name = ''Alice'', password_hash = ''h1''\<rparr>]"
    by code_simp
  have f: "filter (\<lambda>u. user_id u \<noteq> 1
                 \<and> (lower (email u) = lower ''alice'' \<or> sublist (lower ''alice'') (lower (name u))))
         (users terminal_db)
     = []"
    by code_simp
  have a: "search_get_queryset terminal_db 2 (Some ''ALICE'')
     = [\<lparr>user_id = 1, email = ''a@x.com'', name = ''Alice'', password_hash = ''h1''\<rparr>]"
    using search_matches_without_case [of terminal_db 2 "''ALICE''", THEN conjunct1] e
    by (rule trans)
  have b: "search_get_queryset terminal_db 1 (Some ''alice'') = []"
    using search_matches_without_case [of terminal_db 1 "''alice''", THEN conjunct1] f
    by (rule trans)
  from a b show ?thesis by (rule conjI)
qed

section \<open>Reachable example states\<close>

lemma register_alice: "snd (register_post (\<lambda>p. p) empty_db alice_data) = one_user_db"
  by (simp add: register_post_def empty_db_def alice_data_def one_user_db_def next_id_def)

lemma iexact_alice_bob: "\<not> iexact ''a@x.com'' ''b@x.com''"
  by code_simp

lemma register_bob: "snd (register_post (\<lambda>p. p) one_user_db bob_data) = two_users_db"
  by (simp add: register_post_def bob_data_def one_user_db_def two_users_db_def next_id_def
      iexact_alice_bob)

lemma reachable_one_user: "reachable one_user_db"
  using reachable.register [OF reachable.init, of "\<lambda>p. p" alice_data]
  by (simp add: register_alice)

lemma reachable_no_self_one_user: "reachable_no_self one_user_db"
  using reachable_no_self.register_ns [OF reachable_no_self.init_ns, of "\<lambda>p. p" alice_data]
  by (simp add: register_alice)

lemma reachable_two_users: "reachable two_users_db"
  using reachable.register [OF reachable_one_user, of "\<lambda>p. p" bob_data]
  by (simp add: register_bob)

lemma reachable_no_self_two_users: "reachable_no_self two_users_db"
  using reachable_no_self.register_ns [OF reachable_no_self_one_user, of "\<lambda>p. p" bob_data]
  by (simp add: register_bob)

lemma users_create: "users (snd (create_post s acting now d)) = users s"
  by (simp add: create_post_def Let_def split: option.splits)

lemma reachable_self_request: "reachable self_request_db"
  unfolding self_request_db_def
  by (rule reachable.send [OF reachable_one_user]) (simp add: one_user_db_def)

lemma reachable_self_friend: "reachable self_friend_db"
  unfolding self_friend_db_def
  by (rule reachable.accept [OF reachable_self_request])
    (simp add: self_request_db_def users_create one_user_db_def)

lemma self_request_rows:
  "requests self_request_db
     = [\<lparr>request_id = 1, from_user = 1, to_user = 1, status = ''pending'', created_at = 20\<rparr>]"
  by (simp add: self_request_db_def create_post_def one_user_db_def send_to_1_def next_id_def Let_def)

section \<open>No self-friendship\<close>

lemma set_save: "r \<in> set (save fr rs) \<Longrightarrow> r = fr \<or> r \<in> set rs"
  by (auto simp: save_def split: if_splits)

lemma accept_cases:
  "(accept_post s acting uid = (Response_400 ''Invalid friend request'', s))
   \<or> (\<exists>m \<in> set (requests s). pending_from uid acting m
        \<and> accept_post s acting uid
            = (Response_200 (m\<lparr>status := ''accepted''\<rparr>),
               s\<lparr>requests := save (m\<lparr>status := ''accepted''\<rparr>) (requests s),
                  friends := friends_add acting (from_user m) (friends s)\<rparr>))"
proof (cases "first_by_pk (filter (pending_from uid acting) (requests s))")
  case None
  then show ?thesis by (simp add: accept_post_def)
next
  case (Some m)
  from lookup_Some [OF Some] have "m \<in> set (requests s)" "pending_from uid acting m" .
  moreover have "accept_post s acting uid
            = (Response_200 (m\<lparr>status := ''accepted''\<rparr>),
               s\<lparr>requests := save (m\<lparr>status := ''accepted''\<rparr>) (requests s),
                  friends := friends_add acting (from_user m) (friends s)\<rparr>)"
    by (simp add: accept_post_def Some Let_def)
  ultimately show ?thesis by blast
qed

lemma reject_cases:
  "(reject_post s acting uid = (Response_400 ''Invalid friend request'', s))
   \<or> (\<exists>m \<in> set (requests s). pending_from uid acting m
        \<and> reject_post s acting uid
            = (Response_200 (m\<lparr>status := ''rejected''\<rparr>),
               s\<lparr>requests := save (m\<lparr>status := ''rejected''\<rparr>) (requests s)\<rparr>))"
proof (cases "first_by_pk (filter (pending_from uid acting) (requests s))")
  case None
  then show ?thesis by (simp add: reject_post_def)
next
  case (Some m)
  from lookup_Some [OF Some] have "m \<in> set (requests s)" "pending_from uid acting m" .
  moreover have "reject_post s acting uid
            = (Response_200 (m\<lparr>status := ''rejected''\<rparr>),
               s\<lparr>requests := save (m\<lparr>status := ''rejected''\<rparr>) (requests s)\<rparr>)"
    by (simp add: reject_post_def Some Let_def)
  ultimately show ?thesis by blast
qed

lemma no_self_register: "no_self s \<Longrightarrow> no_self (snd (register_post h s d))"
  by (simp add: no_self_def requests_register friends_register)

lemma no_self_create:
  assumes "no_self s" and "data_to_user d \<noteq> Some acting"
  shows "no_self (snd (create_post s acting now d))"
  using assms by (auto simp: no_self_def create_post_def Let_def split: option.splits)

lemma no_self_accept:
  assumes "no_self s"
  shows "no_self (snd (accept_post s acting uid))"
proof -
  from accept_cases [of s acting uid] show ?thesis
  proof
    assume "accept_post s acting uid = (Response_400 ''Invalid friend request'', s)"
    with assms show ?thesis by simp
  next
    assume "\<exists>m \<in> set (requests s). pending_from uid acting m
        \<and> accept_post s acting uid
            = (Response_200 (m\<lparr>status := ''accepted''\<rparr>),
               s\<lparr>requests := save (m\<lparr>status := ''accepted''\<rparr>) (requests s),
                  friends := friends_add acting (from_user m) (friends s)\<rparr>)"
    then obtain m where mem: "m \<in> set (requests s)" and p: "pending_from uid acting m"
      and res: "snd (accept_post s acting uid)
            = s\<lparr>requests := save (m\<lparr>status := ''accepted''\<rparr>) (requests s),
                  friends := friends_add acting (from_user m) (friends s)\<rparr>"
      by auto
    from assms mem have ne: "from_user m \<noteq> to_user m" by (simp add: no_self_def)
    from p have to: "to_user m = acting" by (simp add: pending_from_def)
    have rows: "\<forall>r \<in> set (save (m\<lparr>status := ''accepted''\<rparr>) (requests s)). from_user r \<noteq> to_user r"
    proof
      fix r assume "r \<in> set (save (m\<lparr>status := ''accepted''\<rparr>) (requests s))"
      then have "r = m\<lparr>status := ''accepted''\<rparr> \<or> r \<in> set (requests s)" by (rule set_save)
      with ne assms show "from_user r \<noteq> to_user r" by (auto simp: no_self_def)
    qed
    have "\<forall>u. (u, u) \<notin> friends_add acting (from_user m) (friends s)"
      using assms ne to by (auto simp: friends_add_def no_self_def)
    with rows show ?thesis by (simp add: res no_self_def)
  qed
qed

lemma no_self_reject:
  assumes "no_self s"
  shows "no_self (snd (reject_post s acting uid))"
proof -
  from reject_cases [of s acting uid] show ?thesis
  proof
    assume "reject_post s acting uid = (Response_400 ''Invalid friend request'', s)"
    with assms show ?thesis by simp
  next
    assume "\<exists>m \<in> set (requests s). pending_from uid acting m
        \<and> reject_post s acting uid
            = (Response_200 (m\<lparr>status := ''rejected''\<rparr>),
               s\<lparr>requests := save (m\<lparr>status := ''rejected''\<rparr>) (requests s)\<rparr>)"
    then obtain m where mem: "m \<in> set (requests s)"
      and res: "snd (reject_post s acting uid)
            = s\<lparr>requests := save (m\<lparr>status := ''rejected''\<rparr>) (requests s)\<rparr>"
      by auto
    from assms mem have ne: "from_user m \<noteq> to_user m" by (simp add: no_self_def)
    have rows: "\<forall>r \<in> set (save (m\<lparr>status := ''rejected''\<rparr>) (requests s)). from_user r \<noteq> to_user r"
    proof
      fix r assume "r \<in> set (save (m\<lparr>status := ''rejected''\<rparr>) (requests s))"
      then have "r = m\<lparr>status := ''rejected''\<rparr> \<or> r \<in> set (requests s)" by (rule set_save)
      with ne assms show "from_user r \<noteq> to_user r" by (auto simp: no_self_def)
    qed
    with assms show ?thesis by (simp add: res no_self_def)
  qed
qed

lemma reachable_no_self_invariant: "reachable_no_self s \<Longrightarrow> no_self s"
proof (induction rule: reachable_no_self.induct)
  case init_ns
  show ?case by (simp add: no_self_def empty_db_def)
next
  case (register_ns s hash d)
  then show ?case by (simp add: no_self_register)
next
  case (send_ns s acting d now)
  then show ?case by (simp add: no_self_create)
next
  case (accept_ns s acting uid)
  then show ?case by (simp add: no_self_accept)
next
  case (reject_ns s acting uid)
  then show ?case by (simp add: no_self_reject)
qed

text \<open>
  C2, as stated: in no reachable state is a user in its own friends relation. It fails:
  Alice registers, sends a friend request to herself, which Send stores, and accepts it;
  she is then her own friend.
\<close>

theorem self_friend_counterexample:
  "reachable self_friend_db \<and> (1, 1) \<in> friends self_friend_db"
proof
  show "reachable self_friend_db" by (rule reachable_self_friend)
  have "first_by_pk (filter (pending_from (Some 1) 1) (requests self_request_db))
          = Some \<lparr>request_id = 1, from_user = 1, to_user = 1, status = ''pending'', created_at = 20\<rparr>"
    by (simp add: self_request_rows pending_from_def)
  then show "(1, 1) \<in> friends self_friend_db"
    by (simp add: self_friend_db_def accept_post_def Let_def friends_add_def)
qed

lemma save_other_id: "r \<in> set rs \<Longrightarrow> request_id r \<noteq> request_id fr \<Longrightarrow> r \<in> set (save fr rs)"
proof (induction rs)
  case Nil
  then show ?case by simp
next
  case (Cons a rs)
  then show ?case by (cases "r = a") (simp_all add: save_def)
qed

lemma distinct_ids_differ:
  assumes "distinct (map request_id rs)" and "m \<in> set rs" and "r \<in> set rs" and "r \<noteq> m"
  shows "request_id r \<noteq> request_id m"
proof
  assume e: "request_id r = request_id m"
  from assms(1) have "inj_on request_id (set rs)" by (simp add: distinct_map)
  from inj_onD [OF this e assms(3) assms(2)] assms(4) show False by simp
qed

lemma save_keeps:
  assumes "distinct (map request_id rs)" and "m \<in> set rs" and "r \<in> set rs" and "r \<noteq> m"
    and "request_id fr = request_id m"
  shows "r \<in> set (save fr rs)"
proof (rule save_other_id [OF assms(3)])
  from distinct_ids_differ [OF assms(1-4)] assms(5) show "request_id r \<noteq> request_id fr" by simp
qed

lemma accept_keeps_accepted:
  assumes "unique_ids s" and "r \<in> set (requests s)" and "status r = ''accepted''"
  shows "r \<in> set (requests (snd (accept_post s acting uid)))"
proof -
  from accept_cases [of s acting uid] show ?thesis
  proof
    assume "accept_post s acting uid = (Response_400 ''Invalid friend request'', s)"
    with assms(2) show ?thesis by simp
  next
    assume "\<exists>m \<in> set (requests s). pending_from uid acting m
        \<and> accept_post s acting uid
            = (Response_200 (m\<lparr>status := ''accepted''\<rparr>),
               s\<lparr>requests := save (m\<lparr>status := ''accepted''\<rparr>) (requests s),
                  friends := friends_add acting (from_user m) (friends s)\<rparr>)"
    then obtain m where mem: "m \<in> set (requests s)" and p: "pending_from uid acting m"
      and res: "requests (snd (accept_post s acting uid)) = save (m\<lparr>status := ''accepted''\<rparr>) (requests s)"
      by auto
    from p assms(3) have ne: "r \<noteq> m" by (auto simp: pending_from_def)
    from assms(1) have d: "distinct (map request_id (requests s))" by (simp add: unique_ids_def)
    have "r \<in> set (save (m\<lparr>status := ''accepted''\<rparr>) (requests s))"
      by (rule save_keeps [OF d mem assms(2) ne]) simp
    then show ?thesis by (simp add: res)
  qed
qed

lemma reject_keeps_accepted:
  assumes "unique_ids s" and "r \<in> set (requests s)" and "status r = ''accepted''"
  shows "r \<in> set (requests (snd (reject_post s acting uid)))"
proof -
  from reject_cases [of s acting uid] show ?thesis
  proof
    assume "reject_post s acting uid = (Response_400 ''Invalid friend request'', s)"
    with assms(2) show ?thesis by simp
  next
    assume "\<exists>m \<in> set (requests s). pending_from uid acting m
        \<and> reject_post s acting uid
            = (Response_200 (m\<lparr>status := ''rejected''\<rparr>),
               s\<lparr>requests := save (m\<lparr>status := ''rejected''\<rparr>) (requests s)\<rparr>)"
    then obtain m where mem: "m \<in> set (requests s)" and p: "pending_from uid acting m"
      and res: "requests (snd (reject_post s acting uid)) = save (m\<lparr>status := ''rejected''\<rparr>) (requests s)"
      by auto
    from p assms(3) have ne: "r \<noteq> m" by (auto simp: pending_from_def)
    from assms(1) have d: "distinct (map request_id (requests s))" by (simp add: unique_ids_def)
    have "r \<in> set (save (m\<lparr>status := ''rejected''\<rparr>) (requests s))"
      by (rule save_keeps [OF d mem assms(2) ne]) simp
    then show ?thesis by (simp add: res)
  qed
qed

lemma accept_self_edge:
  assumes "(u, u) \<in> friends (snd (accept_post s acting uid))"
  shows "(u, u) \<in> friends s
       \<or> (\<exists>r \<in> set (requests (snd (accept_post s acting uid))).
             from_user r = u \<and> to_user r = u \<and> status r = ''accepted'')"
proof -
  from accept_cases [of s acting uid] show ?thesis
  proof
    assume "accept_post s acting uid = (Response_400 ''Invalid friend request'', s)"
    with assms show ?thesis by simp
  next
    assume "\<exists>m \<in> set (requests s). pending_from uid acting m
        \<and> accept_post s acting uid
            = (Response_200 (m\<lparr>status := ''accepted''\<rparr>),
               s\<lparr>requests := save (m\<lparr>status := ''accepted''\<rparr>) (requests s),
                  friends := friends_add acting (from_user m) (friends s)\<rparr>)"
    then obtain m where mem: "m \<in> set (requests s)" and p: "pending_from uid acting m"
      and res: "snd (accept_post s acting uid)
            = s\<lparr>requests := save (m\<lparr>status := ''accepted''\<rparr>) (requests s),
                  friends := friends_add acting (from_user m) (friends s)\<rparr>"
      by auto
    from assms have "(u, u) \<in> friends_add acting (from_user m) (friends s)" by (simp add: res)
    then have "(u, u) \<in> friends s \<or> (u = acting \<and> u = from_user m)"
      by (auto simp: friends_add_def)
    then show ?thesis
    proof
      assume "(u, u) \<in> friends s"
      then show ?thesis by simp
    next
      assume u: "u = acting \<and> u = from_user m"
      from p have "to_user m = acting" by (simp add: pending_from_def)
      with u have self: "from_user (m\<lparr>status := ''accepted''\<rparr>) = u"
        "to_user (m\<lparr>status := ''accepted''\<rparr>) = u" "status (m\<lparr>status := ''accepted''\<rparr>) = ''accepted''"
        by simp_all
      have "m\<lparr>status := ''accepted''\<rparr> \<in> set (save (m\<lparr>status := ''accepted''\<rparr>) (requests s))"
        by (rule save_mem [OF mem]) simp
      then have "m\<lparr>status := ''accepted''\<rparr> \<in> set (requests (snd (accept_post s acting uid)))"
        by (simp add: res)
      with self show ?thesis by blast
    qed
  qed
qed

lemma requests_create:
  "r \<in> set (requests s) \<Longrightarrow> r \<in> set (requests (snd (create_post s acting now d)))"
  by (simp add: create_post_def Let_def split: option.splits)

lemma create_new_pending:
  "r \<in> set (requests (snd (create_post s acting now d))) \<Longrightarrow> r \<in> set (requests s) \<or> status r = ''pending''"
  by (auto simp: create_post_def Let_def split: option.splits if_splits)

lemma self_friend_has_request:
  "reachable s \<Longrightarrow>
   \<forall>u. (u, u) \<in> friends s
       \<longrightarrow> (\<exists>r \<in> set (requests s). from_user r = u \<and> to_user r = u \<and> status r = ''accepted'')"
proof (induction rule: reachable.induct)
  case init
  show ?case by (simp add: empty_db_def)
next
  case (register s hash d)
  then show ?case by (simp add: requests_register friends_register)
next
  case (send s acting now d)
  show ?case
  proof (intro allI impI)
    fix u assume "(u, u) \<in> friends (snd (create_post s acting now d))"
    then have "(u, u) \<in> friends s" by (simp add: friends_create)
    with send.IH obtain r where "r \<in> set (requests s)"
      "from_user r = u \<and> to_user r = u \<and> status r = ''accepted''" by blast
    then show "\<exists>r \<in> set (requests (snd (create_post s acting now d))).
                 from_user r = u \<and> to_user r = u \<and> status r = ''accepted''"
      using requests_create by blast
  qed
next
  case (accept s acting uid)
  have un: "unique_ids s" by (rule reachable_unique_ids [OF accept.hyps(1)])
  show ?case
  proof (intro allI impI)
    fix u assume "(u, u) \<in> friends (snd (accept_post s acting uid))"
    from accept_self_edge [OF this]
    show "\<exists>r \<in> set (requests (snd (accept_post s acting uid))).
                 from_user r = u \<and> to_user r = u \<and> status r = ''accepted''"
    proof
      assume "(u, u) \<in> friends s"
      with accept.IH obtain r where r: "r \<in> set (requests s)"
        "from_user r = u \<and> to_user r = u \<and> status r = ''accepted''" by blast
      then have "r \<in> set (requests (snd (accept_post s acting uid)))"
        using accept_keeps_accepted [OF un] by blast
      with r show ?thesis by blast
    qed
  qed
next
  case (reject s acting uid)
  have un: "unique_ids s" by (rule reachable_unique_ids [OF reject.hyps(1)])
  show ?case
  proof (intro allI impI)
    fix u assume "(u, u) \<in> friends (snd (reject_post s acting uid))"
    then have "(u, u) \<in> friends s" by (simp add: friends_reject)
    with reject.IH obtain r where r: "r \<in> set (requests s)"
      "from_user r = u \<and> to_user r = u \<and> status r = ''accepted''" by blast
    then have "r \<in> set (requests (snd (reject_post s acting uid)))"
      using reject_keeps_accepted [OF un] by blast
    with r show "\<exists>r \<in> set (requests (snd (reject_post s acting uid))).
                 from_user r = u \<and> to_user r = u \<and> status r = ''accepted''"
      by blast
  qed
qed

lemma accepted_are_friends:
  "reachable s \<Longrightarrow>
   \<forall>r \<in> set (requests s). status r = ''accepted''
       \<longrightarrow> (from_user r, to_user r) \<in> friends s \<and> (to_user r, from_user r) \<in> friends s"
proof (induction rule: reachable.induct)
  case init
  show ?case by (simp add: empty_db_def)
next
  case (register s hash d)
  then show ?case by (simp add: requests_register friends_register)
next
  case (send s acting now d)
  show ?case
  proof (intro ballI impI)
    fix r assume r: "r \<in> set (requests (snd (create_post s acting now d)))" "status r = ''accepted''"
    from create_new_pending [OF r(1)] r(2) have "r \<in> set (requests s)" by auto
    with send.IH r(2) show "(from_user r, to_user r) \<in> friends (snd (create_post s acting now d))
        \<and> (to_user r, from_user r) \<in> friends (snd (create_post s acting now d))"
      by (simp add: friends_create)
  qed
next
  case (accept s acting uid)
  from accept_cases [of s acting uid] show ?case
  proof
    assume "accept_post s acting uid = (Response_400 ''Invalid friend request'', s)"
    with accept.IH show ?thesis by simp
  next
    assume "\<exists>m \<in> set (requests s). pending_from uid acting m
        \<and> accept_post s acting uid
            = (Response_200 (m\<lparr>status := ''accepted''\<rparr>),
               s\<lparr>requests := save (m\<lparr>status := ''accepted''\<rparr>) (requests s),
                  friends := friends_add acting (from_user m) (friends s)\<rparr>)"
    then obtain m where p: "pending_from uid acting m"
      and res: "snd (accept_post s acting uid)
            = s\<lparr>requests := save (m\<lparr>status := ''accepted''\<rparr>) (requests s),
                  friends := friends_add acting (from_user m) (friends s)\<rparr>"
      by auto
    from p have to: "to_user m = acting" by (simp add: pending_from_def)
    show ?thesis
    proof (intro ballI impI)
      fix r assume r: "r \<in> set (requests (snd (accept_post s acting uid)))" "status r = ''accepted''"
      from r(1) have "r \<in> set (save (m\<lparr>status := ''accepted''\<rparr>) (requests s))" by (simp add: res)
      then have "r = m\<lparr>status := ''accepted''\<rparr> \<or> r \<in> set (requests s)" by (rule set_save)
      then show "(from_user r, to_user r) \<in> friends (snd (accept_post s acting uid))
          \<and> (to_user r, from_user r) \<in> friends (snd (accept_post s acting uid))"
      proof
        assume "r = m\<lparr>status := ''accepted''\<rparr>"
        with to show ?thesis by (simp add: res friends_add_def)
      next
        assume "r \<in> set (requests s)"
        with accept.IH r(2) show ?thesis by (simp add: res friends_add_def)
      qed
    qed
  qed
next
  case (reject s acting uid)
  from reject_cases [of s acting uid] show ?case
  proof
    assume "reject_post s acting uid = (Response_400 ''Invalid friend request'', s)"
    with reject.IH show ?thesis by simp
  next
    assume "\<exists>m \<in> set (requests s). pending_from uid acting m
        \<and> reject_post s acting uid
            = (Response_200 (m\<lparr>status := ''rejected''\<rparr>),
               s\<lparr>requests := save (m\<lparr>status := ''rejected''\<rparr>) (requests s)\<rparr>)"
    then obtain m where
      res: "snd (reject_post s acting uid)
            = s\<lparr>requests := save (m\<lparr>status := ''rejected''\<rparr>) (requests s)\<rparr>"
      by auto
    show ?thesis
    proof (intro ballI impI)
      fix r assume r: "r \<in> set (requests (snd (reject_post s acting uid)))" "status r = ''accepted''"
      from r(1) have "r \<in> set (save (m\<lparr>status := ''rejected''\<rparr>) (requests s))" by (simp add: res)
      then have "r = m\<lparr>status := ''rejected''\<rparr> \<or> r \<in> set (requests s)" by (rule set_save)
      with r(2) have "r \<in> set (requests s)" by auto
      with reject.IH r(2) show "(from_user r, to_user r) \<in> friends (snd (reject_post s acting uid))
          \<and> (to_user r, from_user r) \<in> friends (snd (reject_post s acting uid))"
        by (simp add: res)
    qed
  qed
qed

text \<open>
  C2, amended: in every state reachable by Register, Send, Accept and Reject, a user is in
  its own friends relation exactly when the state holds an accepted friend request from that
  user to itself; with no such request the user is neither in its own friends relation nor
  in its own friend list.
\<close>

theorem own_friend_iff_accepted_self_request:
  assumes "reachable s"
  shows "((u, u) \<in> friends s
          \<longleftrightarrow> (\<exists>r \<in> set (requests s). from_user r = u \<and> to_user r = u \<and> status r = ''accepted''))
       \<and> (\<not> (\<exists>r \<in> set (requests s). from_user r = u \<and> to_user r = u \<and> status r = ''accepted'')
            \<longrightarrow> (u, u) \<notin> friends s \<and> (\<forall>v \<in> set (friend_list s u). user_id v \<noteq> u))"
proof -
  have a: "(u, u) \<in> friends s
          \<longrightarrow> (\<exists>r \<in> set (requests s). from_user r = u \<and> to_user r = u \<and> status r = ''accepted'')"
    using self_friend_has_request [OF assms] by blast
  have b: "(\<exists>r \<in> set (requests s). from_user r = u \<and> to_user r = u \<and> status r = ''accepted'')
          \<longrightarrow> (u, u) \<in> friends s"
    using accepted_are_friends [OF assms] by fastforce
  have c: "(u, u) \<notin> friends s \<longrightarrow> (\<forall>v \<in> set (friend_list s u). user_id v \<noteq> u)"
    by (auto simp: friend_list_def)
  from a b c show ?thesis by blast
qed

text \<open>
  An instance: Alice has sent herself a request and has not accepted it; the state is
  reachable, holds no accepted request of Alice to herself, and Alice is not her own friend.
\<close>

theorem own_friend_iff_accepted_self_request_witness:
  "reachable self_request_db
   \<and> \<not> (\<exists>r \<in> set (requests self_request_db).
          from_user r = 1 \<and> to_user r = 1 \<and> status r = ''accepted'')
   \<and> (1, 1) \<notin> friends self_request_db"
proof -
  have n: "\<not> (\<exists>r \<in> set (requests self_request_db).
          from_user r = 1 \<and> to_user r = 1 \<and> status r = ''accepted'')"
    by (simp add: self_request_rows)
  from own_friend_iff_accepted_self_request [OF reachable_self_request, of 1] n
  have "(1, 1) \<notin> friends self_request_db" by blast
  with reachable_self_request n show ?thesis by blast
qed

text \<open>
  C5, as stated: every friend request of a reachable state has a sender other than its
  target. It fails: Alice registers and sends a friend request to herself; Send stores it.
\<close>

theorem self_request_counterexample:
  "reachable self_request_db
   \<and> requests self_request_db
       = [\<lparr>request_id = 1, from_user = 1, to_user = 1, status = ''pending'', created_at = 20\<rparr>]"
  using reachable_self_request self_request_rows by (rule conjI)

text \<open>
  C5, amended: in every state reachable by Register, Send, Accept and Reject where no Send
  names the sender itself as the target, every friend request has a sender other than its
  target. Send itself does not refuse the sender as target.
\<close>

theorem requests_not_to_self:
  assumes "reachable_no_self s" and "r \<in> set (requests s)"
  shows "from_user r \<noteq> to_user r"
  using reachable_no_self_invariant [OF assms(1)] assms(2) by (simp add: no_self_def)

text \<open>An instance: Alice and Bob register and Alice sends Bob a request.\<close>

theorem requests_not_to_self_witness:
  "reachable_no_self (snd (create_post two_users_db 1 20 send_to_2))
   \<and> \<lparr>request_id = 1, from_user = 1, to_user = 2, status = ''pending'', created_at = 20\<rparr>
       \<in> set (requests (snd (create_post two_users_db 1 20 send_to_2)))
   \<and> from_user \<lparr>request_id = 1, from_user = 1, to_user = 2, status = ''pending'', created_at = 20\<rparr>
       \<noteq> to_user \<lparr>request_id = 1, from_user = 1, to_user = 2, status = ''pending'', created_at = (20::nat)\<rparr>"
proof -
  have s: "reachable_no_self (snd (create_post two_users_db 1 20 send_to_2))"
    by (rule reachable_no_self.send_ns [OF reachable_no_self_two_users])
      (simp_all add: two_users_db_def send_to_2_def)
  have m: "\<lparr>request_id = 1, from_user = 1, to_user = 2, status = ''pending'', created_at = 20\<rparr>
       \<in> set (requests (snd (create_post two_users_db 1 20 send_to_2)))"
    by (simp add: create_post_def two_users_db_def send_to_2_def next_id_def Let_def)
  from requests_not_to_self [OF s m] s m show ?thesis by simp
qed

section \<open>Terminal states\<close>

lemma set_save_other:
  "r \<in> set (save fr rs) \<Longrightarrow> r = fr \<or> (r \<in> set rs \<and> request_id r \<noteq> request_id fr)"
  by (auto simp: save_def split: if_splits)

lemma save_at_index:
  assumes "distinct (map request_id rs)" and "m \<in> set rs"
  shows "\<exists>k < length rs. rs ! k = m \<and> save (m\<lparr>status := st\<rparr>) rs = rs[k := (rs ! k)\<lparr>status := st\<rparr>]"
proof -
  from assms(2) obtain k where k: "k < length rs" "rs ! k = m" by (auto simp: in_set_conv_nth)
  have "save (m\<lparr>status := st\<rparr>) rs = rs[k := m\<lparr>status := st\<rparr>]"
    by (rule save_list_update [OF assms(1) k(1)]) (simp add: k(2))
  with k show ?thesis by auto
qed

lemma accept_step:
  assumes "unique_ids s"
  shows "requests (snd (accept_post s acting uid)) = requests s
       \<or> (\<exists>k < length (requests s). status (requests s ! k) = ''pending''
            \<and> requests (snd (accept_post s acting uid))
                = (requests s)[k := (requests s ! k)\<lparr>status := ''accepted''\<rparr>])"
proof -
  from accept_cases [of s acting uid] show ?thesis
  proof
    assume "accept_post s acting uid = (Response_400 ''Invalid friend request'', s)"
    then show ?thesis by simp
  next
    assume "\<exists>m \<in> set (requests s). pending_from uid acting m
        \<and> accept_post s acting uid
            = (Response_200 (m\<lparr>status := ''accepted''\<rparr>),
               s\<lparr>requests := save (m\<lparr>status := ''accepted''\<rparr>) (requests s),
                  friends := friends_add acting (from_user m) (friends s)\<rparr>)"
    then obtain m where mem: "m \<in> set (requests s)" and p: "pending_from uid acting m"
      and res: "requests (snd (accept_post s acting uid)) = save (m\<lparr>status := ''accepted''\<rparr>) (requests s)"
      by auto
    from assms have d: "distinct (map request_id (requests s))" by (simp add: unique_ids_def)
    from save_at_index [OF d mem, of "''accepted''"] obtain k where
      "k < length (requests s)" "requests s ! k = m"
      "save (m\<lparr>status := ''accepted''\<rparr>) (requests s)
         = (requests s)[k := (requests s ! k)\<lparr>status := ''accepted''\<rparr>]"
      by blast
    with p res show ?thesis by (auto simp: pending_from_def)
  qed
qed

lemma reject_step:
  assumes "unique_ids s"
  shows "requests (snd (reject_post s acting uid)) = requests s
       \<or> (\<exists>k < length (requests s). status (requests s ! k) = ''pending''
            \<and> requests (snd (reject_post s acting uid))
                = (requests s)[k := (requests s ! k)\<lparr>status := ''rejected''\<rparr>])"
proof -
  from reject_cases [of s acting uid] show ?thesis
  proof
    assume "reject_post s acting uid = (Response_400 ''Invalid friend request'', s)"
    then show ?thesis by simp
  next
    assume "\<exists>m \<in> set (requests s). pending_from uid acting m
        \<and> reject_post s acting uid
            = (Response_200 (m\<lparr>status := ''rejected''\<rparr>),
               s\<lparr>requests := save (m\<lparr>status := ''rejected''\<rparr>) (requests s)\<rparr>)"
    then obtain m where mem: "m \<in> set (requests s)" and p: "pending_from uid acting m"
      and res: "requests (snd (reject_post s acting uid)) = save (m\<lparr>status := ''rejected''\<rparr>) (requests s)"
      by auto
    from assms have d: "distinct (map request_id (requests s))" by (simp add: unique_ids_def)
    from save_at_index [OF d mem, of "''rejected''"] obtain k where
      "k < length (requests s)" "requests s ! k = m"
      "save (m\<lparr>status := ''rejected''\<rparr>) (requests s)
         = (requests s)[k := (requests s ! k)\<lparr>status := ''rejected''\<rparr>]"
      by blast
    with p res show ?thesis by (auto simp: pending_from_def)
  qed
qed

lemma call_step:
  assumes "unique_ids s"
  shows "requests (snd (call_post s c)) = requests s
       \<or> (\<exists>k < length (requests s). status (requests s ! k) = ''pending''
            \<and> (requests (snd (call_post s c)) = (requests s)[k := (requests s ! k)\<lparr>status := ''accepted''\<rparr>]
               \<or> requests (snd (call_post s c)) = (requests s)[k := (requests s ! k)\<lparr>status := ''rejected''\<rparr>]))"
proof (cases c)
  case (Accept acting uid)
  with accept_step [OF assms, of acting uid] show ?thesis by auto
next
  case (Reject acting uid)
  with reject_step [OF assms, of acting uid] show ?thesis by auto
qed

lemma call_row:
  assumes "unique_ids s" and "i < length (requests s)"
  shows "requests (snd (call_post s c)) ! i = requests s ! i
       \<or> (status (requests s ! i) = ''pending''
           \<and> (requests (snd (call_post s c)) ! i = (requests s ! i)\<lparr>status := ''accepted''\<rparr>
              \<or> requests (snd (call_post s c)) ! i = (requests s ! i)\<lparr>status := ''rejected''\<rparr>))"
proof -
  from call_step [OF assms(1), of c] show ?thesis
  proof
    assume "requests (snd (call_post s c)) = requests s"
    then show ?thesis by simp
  next
    assume "\<exists>k < length (requests s). status (requests s ! k) = ''pending''
            \<and> (requests (snd (call_post s c)) = (requests s)[k := (requests s ! k)\<lparr>status := ''accepted''\<rparr>]
               \<or> requests (snd (call_post s c)) = (requests s)[k := (requests s ! k)\<lparr>status := ''rejected''\<rparr>])"
    then obtain k where k: "k < length (requests s)" "status (requests s ! k) = ''pending''"
      and u: "requests (snd (call_post s c)) = (requests s)[k := (requests s ! k)\<lparr>status := ''accepted''\<rparr>]
               \<or> requests (snd (call_post s c)) = (requests s)[k := (requests s ! k)\<lparr>status := ''rejected''\<rparr>]"
      by blast
    show ?thesis
    proof (cases "i = k")
      case True
      with k u assms(2) show ?thesis by auto
    next
      case False
      with u show ?thesis by auto
    qed
  qed
qed

lemma length_call: "length (requests (snd (call_post s c))) = length (requests s)"
proof -
  have "map request_id (requests (snd (call_post s c))) = map request_id (requests s)"
    by (cases c) (simp_all add: ids_accept ids_reject)
  then show ?thesis by (rule map_eq_imp_length_eq)
qed

lemma unique_ids_call: "unique_ids s \<Longrightarrow> unique_ids (snd (call_post s c))"
  by (cases c) (simp_all add: unique_ids_def ids_accept ids_reject)

lemma run_terminal:
  assumes "unique_ids s" and "i < length (requests s)" and "status (requests s ! i) \<noteq> ''pending''"
  shows "requests (run s cs) ! i = requests s ! i"
  using assms
proof (induction cs arbitrary: s)
  case Nil
  then show ?case by simp
next
  case (Cons c cs)
  from call_row [OF Cons.prems(1,2), of c] Cons.prems(3)
  have same: "requests (snd (call_post s c)) ! i = requests s ! i" by blast
  have "requests (run (snd (call_post s c)) cs) ! i = requests (snd (call_post s c)) ! i"
  proof (rule Cons.IH)
    show "unique_ids (snd (call_post s c))" by (rule unique_ids_call [OF Cons.prems(1)])
    show "i < length (requests (snd (call_post s c)))" using Cons.prems(2) by (simp add: length_call)
    show "status (requests (snd (call_post s c)) ! i) \<noteq> ''pending''"
      using same Cons.prems(3) by simp
  qed
  with same show ?case by simp
qed

lemma length_run: "length (requests (run s cs)) = length (requests s)"
  by (induction cs arbitrary: s) (simp_all add: length_call)

lemma run_terminal_mem:
  assumes "unique_ids s" and "fr \<in> set (requests s)" and "status fr \<noteq> ''pending''"
  shows "fr \<in> set (requests (run s cs))"
proof -
  from assms(2) obtain i where i: "i < length (requests s)" "requests s ! i = fr"
    by (auto simp: in_set_conv_nth)
  with assms have "requests (run s cs) ! i = fr" by (simp add: run_terminal)
  moreover from i have "i < length (requests (run s cs))" by (simp add: length_run)
  ultimately show ?thesis by (auto simp: in_set_conv_nth)
qed

lemma accept_success:
  assumes "accept_post s acting uid = (Response_200 fr, s')"
  shows "\<exists>m \<in> set (requests s). pending_from uid acting m \<and> fr = m\<lparr>status := ''accepted''\<rparr>
           \<and> s' = s\<lparr>requests := save fr (requests s),
                      friends := friends_add acting (from_user m) (friends s)\<rparr>"
  using accept_cases [of s acting uid] assms by auto

lemma accept_again:
  assumes "accept_post s acting (Some other) = (Response_200 fr, s')"
    and "\<forall>r \<in> set (requests s). from_user r = other \<and> to_user r = acting \<and> status r = ''pending''
           \<longrightarrow> request_id r = request_id fr"
  shows "accept_post s' acting (Some other) = (Response_400 ''Invalid friend request'', s')"
proof -
  from accept_success [OF assms(1)] obtain m where
    fr: "fr = m\<lparr>status := ''accepted''\<rparr>" and rs: "requests s' = save fr (requests s)"
    by auto
  have "\<forall>r \<in> set (requests s'). \<not> pending_from (Some other) acting r"
  proof
    fix r assume "r \<in> set (requests s')"
    then have "r = fr \<or> (r \<in> set (requests s) \<and> request_id r \<noteq> request_id fr)"
      unfolding rs by (rule set_save_other)
    then show "\<not> pending_from (Some other) acting r"
    proof
      assume "r = fr"
      then show ?thesis by (simp add: pending_from_def fr)
    next
      assume "r \<in> set (requests s) \<and> request_id r \<noteq> request_id fr"
      with assms(2) show ?thesis by (auto simp: pending_from_def)
    qed
  qed
  then have "first_by_pk (filter (pending_from (Some other) acting) (requests s')) = None"
    by (simp add: lookup_None)
  then show ?thesis by (simp add: accept_post_def)
qed

lemma create_twice: "snd (create_post (snd (create_post two_users_db 1 10 send_to_2)) 1 11 send_to_2) = duplicate_db"
  by (simp add: create_post_def two_users_db_def send_to_2_def duplicate_db_def next_id_def Let_def)

lemma reachable_duplicate: "reachable duplicate_db"
proof -
  have a: "reachable (snd (create_post two_users_db 1 10 send_to_2))"
    by (rule reachable.send [OF reachable_two_users]) (simp add: two_users_db_def)
  have "reachable (snd (create_post (snd (create_post two_users_db 1 10 send_to_2)) 1 11 send_to_2))"
    by (rule reachable.send [OF a]) (simp add: users_create two_users_db_def)
  then show ?thesis by (simp only: create_twice)
qed

text \<open>
  C4, as stated: after a successful Accept, a second Accept of the same pair fails. It does
  not when the sender has another pending request to the acting user: Alice sends Bob two
  requests, which Send stores, and Bob's Accept succeeds twice, on one request after the other.
\<close>

theorem second_accept_counterexample:
  "reachable duplicate_db
   \<and> fst (accept_post duplicate_db 2 (Some 1))
       = Response_200 \<lparr>request_id = 1, from_user = 1, to_user = 2, status = ''accepted'', created_at = 10\<rparr>
   \<and> fst (accept_post (snd (accept_post duplicate_db 2 (Some 1))) 2 (Some 1))
       = Response_200 \<lparr>request_id = 2, from_user = 1, to_user = 2, status = ''accepted'', created_at = 11\<rparr>"
proof -
  have a: "accept_post duplicate_db 2 (Some 1)
     = (Response_200 \<lparr>request_id = 1, from_user = 1, to_user = 2, status = ''accepted'', created_at = 10\<rparr>,
        duplicate_db\<lparr>requests :=
           [\<lparr>request_id = 1, from_user = 1, to_user = 2, status = ''accepted'', created_at = 10\<rparr>,
            \<lparr>request_id = 2, from_user = 1, to_user = 2, status = ''pending'', created_at = 11\<rparr>],
          friends := {(1, 2), (2, 1)}\<rparr>)"
    by (simp add: accept_post_def duplicate_db_def pending_from_def save_def friends_add_def Let_def)
  have b: "fst (accept_post (duplicate_db\<lparr>requests :=
           [\<lparr>request_id = 1, from_user = 1, to_user = 2, status = ''accepted'', created_at = 10\<rparr>,
            \<lparr>request_id = 2, from_user = 1, to_user = 2, status = ''pending'', created_at = 11\<rparr>],
          friends := {(1, 2), (2, 1)}\<rparr>) 2 (Some 1))
     = Response_200 \<lparr>request_id = 2, from_user = 1, to_user = 2, status = ''accepted'', created_at = 11\<rparr>"
    by (simp add: accept_post_def pending_from_def save_def friends_add_def Let_def)
  from reachable_duplicate a b show ?thesis by simp
qed

text \<open>
  C4, amended: with unique ids, a call of Accept or Reject leaves each request as it is or
  takes it from pending to accepted or to rejected; a request that is accepted or rejected
  is the same after any sequence of Accept and Reject calls; and after a successful
  Accept the accepted request stays in the store as accepted, and a second Accept of the
  same pair fails with the error and changes nothing when the sender had no other pending
  request to the acting user.
\<close>

theorem terminal_status_is_final:
  assumes "unique_ids s"
  shows "length (requests (snd (call_post s c))) = length (requests s)
       \<and> (\<forall>j < length (requests s).
             requests (snd (call_post s c)) ! j = requests s ! j
             \<or> (status (requests s ! j) = ''pending''
                 \<and> (requests (snd (call_post s c)) ! j = (requests s ! j)\<lparr>status := ''accepted''\<rparr>
                    \<or> requests (snd (call_post s c)) ! j = (requests s ! j)\<lparr>status := ''rejected''\<rparr>)))
       \<and> (i < length (requests s) \<and> status (requests s ! i) \<noteq> ''pending''
             \<longrightarrow> requests (run s cs) ! i = requests s ! i)
       \<and> (accept_post s acting (Some other_user_id) = (Response_200 fr, s')
             \<longrightarrow> status fr = ''accepted'' \<and> fr \<in> set (requests s')
                 \<and> fr \<in> set (requests (run s' cs))
                 \<and> ((\<forall>r \<in> set (requests s).
                        from_user r = other_user_id \<and> to_user r = acting \<and> status r = ''pending''
                        \<longrightarrow> request_id r = request_id fr)
                     \<longrightarrow> accept_post s' acting (Some other_user_id)
                           = (Response_400 ''Invalid friend request'', s')))"
proof (intro conjI)
  show "length (requests (snd (call_post s c))) = length (requests s)" by (rule length_call)
  show "\<forall>j < length (requests s).
             requests (snd (call_post s c)) ! j = requests s ! j
             \<or> (status (requests s ! j) = ''pending''
                 \<and> (requests (snd (call_post s c)) ! j = (requests s ! j)\<lparr>status := ''accepted''\<rparr>
                    \<or> requests (snd (call_post s c)) ! j = (requests s ! j)\<lparr>status := ''rejected''\<rparr>))"
    using call_row [OF assms] by blast
  show "i < length (requests s) \<and> status (requests s ! i) \<noteq> ''pending''
             \<longrightarrow> requests (run s cs) ! i = requests s ! i"
    using run_terminal [OF assms] by blast
  show "accept_post s acting (Some other_user_id) = (Response_200 fr, s')
             \<longrightarrow> status fr = ''accepted'' \<and> fr \<in> set (requests s')
                 \<and> fr \<in> set (requests (run s' cs))
                 \<and> ((\<forall>r \<in> set (requests s).
                        from_user r = other_user_id \<and> to_user r = acting \<and> status r = ''pending''
                        \<longrightarrow> request_id r = request_id fr)
                     \<longrightarrow> accept_post s' acting (Some other_user_id)
                           = (Response_400 ''Invalid friend request'', s'))"
  proof
    assume acc: "accept_post s acting (Some other_user_id) = (Response_200 fr, s')"
    from accept_success [OF acc] obtain m where
      mem: "m \<in> set (requests s)" and fr: "fr = m\<lparr>status := ''accepted''\<rparr>"
      and rs: "requests s' = save fr (requests s)"
      by auto
    have st: "status fr = ''accepted''" by (simp add: fr)
    have "request_id fr = request_id m" by (simp add: fr)
    from save_mem [OF mem this] have in': "fr \<in> set (requests s')" by (simp add: rs)
    have "s' = snd (accept_post s acting (Some other_user_id))" by (simp add: acc)
    then have u': "unique_ids s'" using assms by (simp add: unique_ids_def ids_accept)
    have fin: "fr \<in> set (requests (run s' cs))"
      by (rule run_terminal_mem [OF u' in']) (simp add: st)
    have again: "(\<forall>r \<in> set (requests s).
                        from_user r = other_user_id \<and> to_user r = acting \<and> status r = ''pending''
                        \<longrightarrow> request_id r = request_id fr)
                     \<longrightarrow> accept_post s' acting (Some other_user_id)
                           = (Response_400 ''Invalid friend request'', s')"
      using accept_again [OF acc] by blast
    from st in' fin again
    show "status fr = ''accepted'' \<and> fr \<in> set (requests s')
                 \<and> fr \<in> set (requests (run s' cs))
                 \<and> ((\<forall>r \<in> set (requests s).
                        from_user r = other_user_id \<and> to_user r = acting \<and> status r = ''pending''
                        \<longrightarrow> request_id r = request_id fr)
                     \<longrightarrow> accept_post s' acting (Some other_user_id)
                           = (Response_400 ''Invalid friend request'', s'))"
      by blast
  qed
qed

text \<open>
  An instance: in the state where Bob has accepted the request of Alice and her request to
  Carol is pending, the accepted request survives further calls of Bob and Carol; Carol
  accepts, the accepted request stays, and her second Accept fails and changes nothing.
\<close>

theorem terminal_status_is_final_witness:
  "unique_ids terminal_db
   \<and> (0 < length (requests terminal_db) \<and> status (requests terminal_db ! 0) \<noteq> ''pending'')
   \<and> requests (run terminal_db [Accept 2 (Some 1), Reject 3 (Some 1)]) ! 0 = requests terminal_db ! 0
   \<and> accept_post terminal_db 3 (Some 1)
       = (Response_200 \<lparr>request_id = 2, from_user = 1, to_user = 3, status = ''accepted'', created_at = 11\<rparr>,
          snd (accept_post terminal_db 3 (Some 1)))
   \<and> \<not> (\<exists>r \<in> set (requests terminal_db).
          from_user r = 1 \<and> to_user r = 3 \<and> status r = ''pending'' \<and> request_id r \<noteq> 2)
   \<and> accept_post (snd (accept_post terminal_db 3 (Some 1))) 3 (Some 1)
       = (Response_400 ''Invalid friend request'', snd (accept_post terminal_db 3 (Some 1)))
   \<and> \<lparr>request_id = 2, from_user = 1, to_user = 3, status = ''accepted'', created_at = 11\<rparr>
       \<in> set (requests (run (snd (accept_post terminal_db 3 (Some 1))) [Accept 2 (Some 1), Reject 3 (Some 1)]))"
proof -
  have u: "unique_ids terminal_db" by (simp add: unique_ids_def terminal_db_def)
  have i: "0 < length (requests terminal_db) \<and> status (requests terminal_db ! 0) \<noteq> ''pending''"
    by (simp add: terminal_db_def)
  have "fst (accept_post terminal_db 3 (Some 1))
          = Response_200 \<lparr>request_id = 2, from_user = 1, to_user = 3, status = ''accepted'', created_at = 11\<rparr>"
    by (simp add: accept_post_def terminal_db_def pending_from_def Let_def)
  then have acc: "accept_post terminal_db 3 (Some 1)
       = (Response_200 \<lparr>request_id = 2, from_user = 1, to_user = 3, status = ''accepted'', created_at = 11\<rparr>,
          snd (accept_post terminal_db 3 (Some 1)))"
    by (simp add: prod_eq_iff)
  have only: "\<forall>r \<in> set (requests terminal_db).
         from_user r = 1 \<and> to_user r = 3 \<and> status r = ''pending''
         \<longrightarrow> request_id r
               = request_id \<lparr>request_id = 2, from_user = 1, to_user = 3, status = ''accepted'', created_at = 11\<rparr>"
    by (simp add: terminal_db_def)
  note t = terminal_status_is_final [OF u, where i = 0 and c = "Accept 2 (Some 1)"
      and cs = "[Accept 2 (Some 1), Reject 3 (Some 1)]" and acting = 3 and other_user_id = 1
      and fr = "\<lparr>request_id = 2, from_user = 1, to_user = 3, status = ''accepted'', created_at = 11\<rparr>"
      and s' = "snd (accept_post terminal_db 3 (Some 1))"]
  from t i have a: "requests (run terminal_db [Accept 2 (Some 1), Reject 3 (Some 1)]) ! 0 = requests terminal_db ! 0"
    by blast
  from t acc only have b: "accept_post (snd (accept_post terminal_db 3 (Some 1))) 3 (Some 1)
       = (Response_400 ''Invalid friend request'', snd (accept_post terminal_db 3 (Some 1)))"
    by blast
  from t acc have c: "\<lparr>request_id = 2, from_user = 1, to_user = 3, status = ''accepted'', created_at = 11\<rparr>
       \<in> set (requests (run (snd (accept_post terminal_db 3 (Some 1))) [Accept 2 (Some 1), Reject 3 (Some 1)]))"
    by blast
  have only': "\<not> (\<exists>r \<in> set (requests terminal_db).
          from_user r = 1 \<and> to_user r = 3 \<and> status r = ''pending'' \<and> request_id r \<noteq> 2)"
    by (simp add: terminal_db_def)
  from u i a acc only' b c show ?thesis by blast
qed

section \<open>Reject\<close>

lemma befriended_value:
  "befriended_db =
     \<lparr>users = [\<lparr>user_id = 1, email = ''a@x.com'', name = ''Alice'', password_hash = ''h1''\<rparr>,
               \<lparr>user_id = 2, email = ''b@x.com'', name = ''Bob'', password_hash = ''h2''\<rparr>],
      requests = [\<lparr>request_id = 1, from_user = 1, to_user = 2, status = ''accepted'', created_at = 20\<rparr>],
      friends = {(1, 2), (2, 1)}\<rparr>"
  by (simp add: befriended_db_def accept_post_def create_post_def two_users_db_def send_to_2_def
      next_id_def pending_from_def save_def friends_add_def Let_def)

lemma reachable_befriended: "reachable befriended_db"
proof -
  have a: "reachable (snd (create_post two_users_db 1 20 send_to_2))"
    by (rule reachable.send [OF reachable_two_users]) (simp add: two_users_db_def)
  show ?thesis
    unfolding befriended_db_def
    by (rule reachable.accept [OF a]) (simp add: users_create two_users_db_def)
qed

text \<open>
  C6, as stated: after \<open>A\<close> sends a request to \<open>B\<close> and \<open>B\<close> rejects it, neither is in
  the friend list of the other. It fails when the two are friends already: Alice and Bob are
  friends, Alice sends Bob another request and Bob rejects it; the request is answered as
  rejected, and Alice is still in the friend list of Bob and Bob in that of Alice.
\<close>

theorem reject_between_friends_counterexample:
  "reachable befriended_db
   \<and> fst (reject_post (snd (create_post befriended_db 1 21 send_to_2)) 2 (Some 1))
       = Response_200 \<lparr>request_id = 2, from_user = 1, to_user = 2, status = ''rejected'', created_at = 21\<rparr>
   \<and> friend_list (snd (reject_post (snd (create_post befriended_db 1 21 send_to_2)) 2 (Some 1))) 2
       = [\<lparr>user_id = 1, email = ''a@x.com'', name = ''Alice'', password_hash = ''h1''\<rparr>]
   \<and> friend_list (snd (reject_post (snd (create_post befriended_db 1 21 send_to_2)) 2 (Some 1))) 1
       = [\<lparr>user_id = 2, email = ''b@x.com'', name = ''Bob'', password_hash = ''h2''\<rparr>]"
proof -
  have r: "reject_post (snd (create_post befriended_db 1 21 send_to_2)) 2 (Some 1)
     = (Response_200 \<lparr>request_id = 2, from_user = 1, to_user = 2, status = ''rejected'', created_at = 21\<rparr>,
        \<lparr>users = [\<lparr>user_id = 1, email = ''a@x.com'', name = ''Alice'', password_hash = ''h1''\<rparr>,
                  \<lparr>user_id = 2, email = ''b@x.com'', name = ''Bob'', password_hash = ''h2''\<rparr>],
         requests = [\<lparr>request_id = 1, from_user = 1, to_user = 2, status = ''accepted'', created_at = 20\<rparr>,
                     \<lparr>request_id = 2, from_user = 1, to_user = 2, status = ''rejected'', created_at = 21\<rparr>],
         friends = {(1, 2), (2, 1)}\<rparr>)"
    by (simp add: befriended_value reject_post_def create_post_def send_to_2_def
        next_id_def pending_from_def save_def Let_def)
  have f: "fst (reject_post (snd (create_post befriended_db 1 21 send_to_2)) 2 (Some 1))
       = Response_200 \<lparr>request_id = 2, from_user = 1, to_user = 2, status = ''rejected'', created_at = 21\<rparr>"
    by (simp only: r fst_conv)
  have l2: "friend_list (snd (reject_post (snd (create_post befriended_db 1 21 send_to_2)) 2 (Some 1))) 2
       = [\<lparr>user_id = 1, email = ''a@x.com'', name = ''Alice'', password_hash = ''h1''\<rparr>]"
    unfolding r snd_conv by (simp add: friend_list_def)
  have l1: "friend_list (snd (reject_post (snd (create_post befriended_db 1 21 send_to_2)) 2 (Some 1))) 1
       = [\<lparr>user_id = 2, email = ''b@x.com'', name = ''Bob'', password_hash = ''h2''\<rparr>]"
    unfolding r snd_conv by (simp add: friend_list_def)
  from reachable_befriended f l2 l1 show ?thesis by (intro conjI)
qed

text \<open>
  C6, amended: when a friend request from \<open>other_user_id\<close> to the acting user is pending,
  Reject answers that request with status rejected, stores it so, and leaves the friends
  relation, the users and so every friend list as they were. In particular, after \<open>a\<close>
  sends a request to the registered user \<open>b\<close> and \<open>b\<close> rejects, a request from \<open>a\<close> to
  \<open>b\<close> is answered as rejected and every friend list is what it was before the Send: when
  \<open>a\<close> and \<open>b\<close> were not friends before, neither is in the friend list of the other.
\<close>

theorem reject_pending_keeps_friends:
  assumes "\<exists>r \<in> set (requests s).
             from_user r = other_user_id \<and> to_user r = acting \<and> status r = ''pending''"
  shows "(\<exists>m s'. m \<in> set (requests s) \<and> from_user m = other_user_id \<and> to_user m = acting
           \<and> status m = ''pending''
           \<and> reject_post s acting (Some other_user_id) = (Response_200 (m\<lparr>status := ''rejected''\<rparr>), s')
           \<and> m\<lparr>status := ''rejected''\<rparr> \<in> set (requests s')
           \<and> (\<forall>r \<in> set (requests s'). request_id r = request_id m \<longrightarrow> r = m\<lparr>status := ''rejected''\<rparr>)
           \<and> friends s' = friends s \<and> users s' = users s
           \<and> (\<forall>u. friend_list s' u = friend_list s u))
       \<and> (data_to_user d = Some b \<and> b \<in> set (map user_id (users s0))
           \<longrightarrow> (\<exists>fr s2. reject_post (snd (create_post s0 a now d)) b (Some a) = (Response_200 fr, s2)
                  \<and> from_user fr = a \<and> to_user fr = b \<and> status fr = ''rejected''
                  \<and> friends s2 = friends s0 \<and> users s2 = users s0
                  \<and> (\<forall>u. friend_list s2 u = friend_list s0 u)
                  \<and> ((a, b) \<notin> friends s0 \<and> (b, a) \<notin> friends s0
                      \<longrightarrow> (a, b) \<notin> friends s2 \<and> (b, a) \<notin> friends s2
                          \<and> (\<forall>u \<in> set (friend_list s2 b). user_id u \<noteq> a)
                          \<and> (\<forall>u \<in> set (friend_list s2 a). user_id u \<noteq> b))))"
proof
  from reject_pending [OF assms] obtain m where
    mem: "m \<in> set (requests s)" and f: "from_user m = other_user_id" and t: "to_user m = acting"
    and p: "status m = ''pending''"
    and res: "reject_post s acting (Some other_user_id)
               = (Response_200 (m\<lparr>status := ''rejected''\<rparr>),
                  s\<lparr>requests := save (m\<lparr>status := ''rejected''\<rparr>) (requests s)\<rparr>)"
    by blast
  define fr where "fr = m\<lparr>status := ''rejected''\<rparr>"
  define s' where "s' = s\<lparr>requests := save fr (requests s)\<rparr>"
  have id: "request_id fr = request_id m" by (simp add: fr_def)
  have in': "fr \<in> set (requests s')"
    using save_mem [OF mem id] by (simp add: s'_def)
  have only: "\<forall>r \<in> set (requests s'). request_id r = request_id m \<longrightarrow> r = fr"
    using save_same_id [of _ fr "requests s"] id by (simp add: s'_def)
  have fu: "friends s' = friends s" "users s' = users s" by (simp_all add: s'_def)
  then have fl: "\<forall>u. friend_list s' u = friend_list s u" by (simp add: friend_list_def)
  have res': "reject_post s acting (Some other_user_id) = (Response_200 fr, s')"
    using res by (simp add: fr_def s'_def)
  show "\<exists>m s'. m \<in> set (requests s) \<and> from_user m = other_user_id \<and> to_user m = acting
           \<and> status m = ''pending''
           \<and> reject_post s acting (Some other_user_id) = (Response_200 (m\<lparr>status := ''rejected''\<rparr>), s')
           \<and> m\<lparr>status := ''rejected''\<rparr> \<in> set (requests s')
           \<and> (\<forall>r \<in> set (requests s'). request_id r = request_id m \<longrightarrow> r = m\<lparr>status := ''rejected''\<rparr>)
           \<and> friends s' = friends s \<and> users s' = users s
           \<and> (\<forall>u. friend_list s' u = friend_list s u)"
    using mem f t p res' in' only fu fl unfolding fr_def by blast
next
  show "data_to_user d = Some b \<and> b \<in> set (map user_id (users s0))
           \<longrightarrow> (\<exists>fr s2. reject_post (snd (create_post s0 a now d)) b (Some a) = (Response_200 fr, s2)
                  \<and> from_user fr = a \<and> to_user fr = b \<and> status fr = ''rejected''
                  \<and> friends s2 = friends s0 \<and> users s2 = users s0
                  \<and> (\<forall>u. friend_list s2 u = friend_list s0 u)
                  \<and> ((a, b) \<notin> friends s0 \<and> (b, a) \<notin> friends s0
                      \<longrightarrow> (a, b) \<notin> friends s2 \<and> (b, a) \<notin> friends s2
                          \<and> (\<forall>u \<in> set (friend_list s2 b). user_id u \<noteq> a)
                          \<and> (\<forall>u \<in> set (friend_list s2 a). user_id u \<noteq> b)))"
  proof
    assume A: "data_to_user d = Some b \<and> b \<in> set (map user_id (users s0))"
    define s1 where "s1 = snd (create_post s0 a now d)"
    from A have cr: "create_post s0 a now d =
           (Response_201 \<lparr>request_id = next_id (map request_id (requests s0)), from_user = a,
                           to_user = b, status = ''pending'', created_at = now\<rparr>,
            s0\<lparr>requests := requests s0 @
                 [\<lparr>request_id = next_id (map request_id (requests s0)), from_user = a,
                   to_user = b, status = ''pending'', created_at = now\<rparr>]\<rparr>)"
      by (intro create_valid) simp_all
    then have ex: "\<exists>r \<in> set (requests s1). from_user r = a \<and> to_user r = b \<and> status r = ''pending''"
      by (simp add: s1_def)
    have f1: "friends s1 = friends s0" by (simp add: s1_def friends_create)
    have u1: "users s1 = users s0" by (simp add: s1_def users_create)
    from reject_pending [OF ex] obtain m where
      m: "from_user m = a" "to_user m = b"
      and res: "reject_post s1 b (Some a)
               = (Response_200 (m\<lparr>status := ''rejected''\<rparr>),
                  s1\<lparr>requests := save (m\<lparr>status := ''rejected''\<rparr>) (requests s1)\<rparr>)"
      by blast
    define s2 where "s2 = s1\<lparr>requests := save (m\<lparr>status := ''rejected''\<rparr>) (requests s1)\<rparr>"
    have f2: "friends s2 = friends s0" by (simp add: s2_def f1)
    have u2: "users s2 = users s0" by (simp add: s2_def u1)
    from f2 u2 have fl: "\<forall>u. friend_list s2 u = friend_list s0 u" by (simp add: friend_list_def)
    have nf: "(a, b) \<notin> friends s0 \<and> (b, a) \<notin> friends s0
                      \<longrightarrow> (a, b) \<notin> friends s2 \<and> (b, a) \<notin> friends s2
                          \<and> (\<forall>u \<in> set (friend_list s2 b). user_id u \<noteq> a)
                          \<and> (\<forall>u \<in> set (friend_list s2 a). user_id u \<noteq> b)"
      by (auto simp: f2 friend_list_def)
    have r2: "reject_post (snd (create_post s0 a now d)) b (Some a)
            = (Response_200 (m\<lparr>status := ''rejected''\<rparr>), s2)"
      using res by (simp add: s1_def s2_def)
    have fr: "from_user (m\<lparr>status := ''rejected''\<rparr>) = a"
      "to_user (m\<lparr>status := ''rejected''\<rparr>) = b" "status (m\<lparr>status := ''rejected''\<rparr>) = ''rejected''"
      using m by simp_all
    from r2 fr f2 u2 fl nf
    show "\<exists>fr s2. reject_post (snd (create_post s0 a now d)) b (Some a) = (Response_200 fr, s2)
                  \<and> from_user fr = a \<and> to_user fr = b \<and> status fr = ''rejected''
                  \<and> friends s2 = friends s0 \<and> users s2 = users s0
                  \<and> (\<forall>u. friend_list s2 u = friend_list s0 u)
                  \<and> ((a, b) \<notin> friends s0 \<and> (b, a) \<notin> friends s0
                      \<longrightarrow> (a, b) \<notin> friends s2 \<and> (b, a) \<notin> friends s2
                          \<and> (\<forall>u \<in> set (friend_list s2 b). user_id u \<noteq> a)
                          \<and> (\<forall>u \<in> set (friend_list s2 a). user_id u \<noteq> b))"
      by blast
  qed
qed

text \<open>
  An instance: in a state where user 1 has a pending request to user 3, user 3 rejects; and
  from the state with the two registered users 1 and 2 only, who are not friends, user 1
  sends a request to user 2 and user 2 rejects: both friend lists stay empty.
\<close>

theorem reject_pending_keeps_friends_witness:
  "(\<exists>r \<in> set (requests terminal_db). from_user r = 1 \<and> to_user r = 3 \<and> status r = ''pending'')
   \<and> friends (snd (reject_post terminal_db 3 (Some 1))) = friends terminal_db
   \<and> (\<exists>m. fst (reject_post terminal_db 3 (Some 1)) = Response_200 (m\<lparr>status := ''rejected''\<rparr>))
   \<and> (data_to_user send_to_2 = Some 2 \<and> 2 \<in> set (map user_id (users two_users_db))
       \<and> (1, 2) \<notin> friends two_users_db \<and> (2, 1) \<notin> friends two_users_db)
   \<and> (\<exists>fr s2. reject_post (snd (create_post two_users_db 1 20 send_to_2)) 2 (Some 1) = (Response_200 fr, s2)
         \<and> status fr = ''rejected'' \<and> friend_list s2 2 = [] \<and> friend_list s2 1 = [])"
proof -
  have h: "\<exists>r \<in> set (requests terminal_db). from_user r = 1 \<and> to_user r = 3 \<and> status r = ''pending''"
    by (simp add: terminal_db_def)
  have p: "data_to_user send_to_2 = Some 2 \<and> 2 \<in> set (map user_id (users two_users_db))"
    by (simp add: send_to_2_def two_users_db_def)
  have q: "(1, 2) \<notin> friends two_users_db \<and> (2, 1) \<notin> friends two_users_db"
    by (simp add: two_users_db_def)
  note t = reject_pending_keeps_friends [OF h, of send_to_2 2 two_users_db 1 20]
  from t have first: "friends (snd (reject_post terminal_db 3 (Some 1))) = friends terminal_db
     \<and> (\<exists>m. fst (reject_post terminal_db 3 (Some 1)) = Response_200 (m\<lparr>status := ''rejected''\<rparr>))"
    by fastforce
  from t p q obtain fr s2 where
    r: "reject_post (snd (create_post two_users_db 1 20 send_to_2)) 2 (Some 1) = (Response_200 fr, s2)"
    and st: "status fr = ''rejected''"
    and fl: "\<forall>u. friend_list s2 u = friend_list two_users_db u"
    and nf: "(1, 2) \<notin> friends s2" "(2, 1) \<notin> friends s2"
    by blast
  have "friend_list two_users_db 2 = []" "friend_list two_users_db 1 = []"
    by (simp_all add: friend_list_def two_users_db_def)
  with fl have "friend_list s2 2 = []" "friend_list s2 1 = []" by simp_all
  with h p q first r st show ?thesis by blast
qed

end
